theory Spec2Isabelle
  imports Main "HOL-Library.Word"
begin

section \<open>The TrackFlow escrow contract\<close>

text \<open>
  A shallow embedding of the Solidity contract \<^verbatim>\<open>TrackFlow\<close> (the generation with
  \<^verbatim>\<open>releasedAmount\<close> and the statuses CREATED, ACTIVE, COMPLETED).

  \<^item> \<^verbatim>\<open>uint256\<close> is \<open>256 word\<close>, \<^verbatim>\<open>address\<close> is \<open>160 word\<close>. Solidity 0.8 checks
    its arithmetic: \<open>+\<close>, \<open>-\<close>, \<open>++\<close> and \<open>/\<close> revert with a panic instead of wrapping,
    and the model writes each check out.
  \<^item> A \<^verbatim>\<open>mapping(uint256 => LogisticsContract)\<close> is a total function: a key that was
    never written holds the all-zero record.
  \<^item> A \<^verbatim>\<open>require\<close> that fails reverts the transaction: the function returns
    \<open>Inl\<close> of the reason and the caller keeps the state it had.
  \<^item> \<^verbatim>\<open>keccak256\<close> is a primitive of the platform; it is a parameter \<open>H\<close> of the
    functions that hash.
  \<^item> The outcome of the value transfer \<^verbatim>\<open>c.carrier.call{value: amount}("")\<close> is decided
    by the callee; it is the parameter \<open>sent\<close> of \<open>verifyMilestone\<close>.
  \<^item> Emitted events and the value transfers that went through are appended to two
    logs kept beside the storage; the contract cannot read them.
\<close>

subsection \<open>Data\<close>

type_synonym uint256 = "256 word"
type_synonym address = "160 word"
type_synonym bytes32 = "256 word"
type_synonym bytes = "8 word list"

datatype Status = CREATED | ACTIVE | COMPLETED

record Milestone =
  qrHash :: bytes32
  location :: string
  verifier :: address
  completed :: bool

record LogisticsContract =
  shipper :: address
  carrier :: address
  recipient :: address
  payment :: uint256
  releasedAmount :: uint256
  status :: Status
  milestones :: "Milestone list"
  completedMilestones :: uint256

datatype Event =
    ContractCreated uint256 address address address uint256
  | ContractAccepted uint256 address
  | MilestoneVerified uint256 uint256 string address
  | PaymentReleased uint256 address uint256 uint256

record TrackFlow =
  contracts :: "uint256 \<Rightarrow> LogisticsContract"
  nextContractId :: uint256
  events :: "Event list"
  transfers :: "(address \<times> uint256) list"

text \<open>
  The reasons of a revert, one per \<^verbatim>\<open>require\<close> message of the source, and \<open>Panic\<close>
  for a failed arithmetic check.
\<close>

datatype error =
    PaymentRequired       \<comment> \<open>"Payment required"\<close>
  | InvalidCarrier        \<comment> \<open>"Invalid carrier"\<close>
  | InvalidRecipient      \<comment> \<open>"Invalid recipient"\<close>
  | NoMilestones          \<comment> \<open>"No milestones"\<close>
  | MismatchedArrays      \<comment> \<open>"Mismatched arrays"\<close>
  | NotTheCarrier         \<comment> \<open>"Not the carrier"\<close>
  | InvalidStatus         \<comment> \<open>"Invalid status"\<close>
  | InvalidMilestone      \<comment> \<open>"Invalid milestone"\<close>
  | OutOfOrder            \<comment> \<open>"Out of order"\<close>
  | AlreadyVerified       \<comment> \<open>"Already verified"\<close>
  | NotAuthorized         \<comment> \<open>"Not authorized"\<close>
  | InvalidQRCode         \<comment> \<open>"Invalid QR code"\<close>
  | FailedToSendPayment   \<comment> \<open>"Failed to send payment"\<close>
  | Panic

text \<open>The value of a member of the enum: its position in the declaration.\<close>

fun statusIndex :: "Status \<Rightarrow> nat" where
  "statusIndex CREATED = 0"
| "statusIndex ACTIVE = 1"
| "statusIndex COMPLETED = 2"

text \<open>The storage of a freshly deployed contract: every slot is zero.\<close>

definition zeroContract :: LogisticsContract where
  "zeroContract =
     \<lparr>shipper = 0, carrier = 0, recipient = 0, payment = 0, releasedAmount = 0,
      status = CREATED, milestones = [], completedMilestones = 0\<rparr>"

definition deployed :: TrackFlow where
  "deployed = \<lparr>contracts = (\<lambda>_. zeroContract), nextContractId = 0, events = [], transfers = []\<rparr>"

subsection \<open>Checked arithmetic\<close>

definition checked_add :: "uint256 \<Rightarrow> uint256 \<Rightarrow> error + uint256" where
  "checked_add a b = (if unat a + unat b < 2 ^ 256 then Inr (a + b) else Inl Panic)"

definition checked_sub :: "uint256 \<Rightarrow> uint256 \<Rightarrow> error + uint256" where
  "checked_sub a b = (if b \<le> a then Inr (a - b) else Inl Panic)"

definition checked_div :: "uint256 \<Rightarrow> uint256 \<Rightarrow> error + uint256" where
  "checked_div a b = (if b = 0 then Inl Panic else Inr (a div b))"

subsection \<open>The commitment preimage\<close>

text \<open>
  \<^verbatim>\<open>abi.encodePacked(contractId, locations[i], verifiers[i])\<close>: the 32 bytes of the
  identifier, big-endian, then the bytes of the string with no length, then the 20 bytes
  of the address.
\<close>

fun be_bytes :: "nat \<Rightarrow> nat \<Rightarrow> bytes" where
  "be_bytes 0 x = []"
| "be_bytes (Suc k) x = be_bytes k (x div 256) @ [of_nat (x mod 256)]"

definition encodePacked :: "uint256 \<Rightarrow> string \<Rightarrow> address \<Rightarrow> bytes" where
  "encodePacked contractId loc ver =
     be_bytes 32 (unat contractId) @ map of_char loc @ be_bytes 20 (unat ver)"

subsection \<open>createContract\<close>

text \<open>
  The loop that pushes one milestone per location. The index stays below the length of
  the array, so \<^verbatim>\<open>i++\<close> cannot overflow; \<^verbatim>\<open>verifiers[i]\<close> is in range because the
  lengths were compared before the loop.
\<close>

function pushMilestones ::
  "(bytes \<Rightarrow> bytes32) \<Rightarrow> uint256 \<Rightarrow> string list \<Rightarrow> address list \<Rightarrow> nat \<Rightarrow>
   Milestone list \<Rightarrow> Milestone list" where
  "pushMilestones H contractId locations verifiers i ms =
     (if i < length locations then
        pushMilestones H contractId locations verifiers (i + 1)
          (ms @ [\<lparr>qrHash = H (encodePacked contractId (locations ! i) (verifiers ! i)),
                  location = locations ! i,
                  verifier = verifiers ! i,
                  completed = False\<rparr>])
      else ms)"
  by pat_completeness auto
termination
  by (relation "measure (\<lambda>(H, contractId, locations, verifiers, i, ms). length locations - i)") auto

declare pushMilestones.simps [simp del]

definition createContract ::
  "(bytes \<Rightarrow> bytes32) \<Rightarrow> TrackFlow \<Rightarrow> address \<Rightarrow> uint256 \<Rightarrow> address \<Rightarrow> address \<Rightarrow>
   string list \<Rightarrow> address list \<Rightarrow> error + (uint256 \<times> TrackFlow)" where
  "createContract H s sender val carrier' recipient' locations verifiers =
     (if \<not> 0 < val then Inl PaymentRequired
      else if carrier' = 0 then Inl InvalidCarrier
      else if recipient' = 0 then Inl InvalidRecipient
      else if \<not> 0 < length locations then Inl NoMilestones
      else if length locations \<noteq> length verifiers then Inl MismatchedArrays
      else
        case checked_add (nextContractId s) 1 of
          Inl e \<Rightarrow> Inl e
        | Inr next \<Rightarrow>
            let contractId = nextContractId s;
                c = contracts s contractId;
                c1 = c\<lparr>shipper := sender, carrier := carrier', recipient := recipient',
                       payment := val, releasedAmount := 0, status := CREATED\<rparr>;
                c2 = c1\<lparr>milestones :=
                         pushMilestones H contractId locations verifiers 0 (milestones c1)\<rparr>
            in Inr (contractId,
                 s\<lparr>nextContractId := next,
                   contracts := (contracts s)(contractId := c2),
                   events := events s @
                     [ContractCreated contractId sender carrier' recipient' val]\<rparr>))"

subsection \<open>acceptContract\<close>

definition acceptContract :: "TrackFlow \<Rightarrow> address \<Rightarrow> uint256 \<Rightarrow> error + TrackFlow" where
  "acceptContract s sender contractId =
     (let c = contracts s contractId in
      if carrier c \<noteq> sender then Inl NotTheCarrier
      else if status c \<noteq> CREATED then Inl InvalidStatus
      else Inr (s\<lparr>contracts := (contracts s)(contractId := c\<lparr>status := ACTIVE\<rparr>),
                  events := events s @ [ContractAccepted contractId sender]\<rparr>))"

subsection \<open>verifyMilestone\<close>

text \<open>
  Lines 166 to 179 of the source: the amount owed for milestone \<open>milestoneIndex\<close>, the
  status after it and the new running total. \<open>c\<close> is the record after the milestone was
  marked and counted.
\<close>

definition releasePayment ::
  "LogisticsContract \<Rightarrow> uint256 \<Rightarrow> error + (uint256 \<times> LogisticsContract)" where
  "releasePayment c milestoneIndex =
     (let total = (of_nat (length (milestones c)) :: uint256) in
      case checked_div (payment c) total of
        Inl e \<Rightarrow> Inl e
      | Inr perMilestone \<Rightarrow>
          (case checked_sub total 1 of
             Inl e \<Rightarrow> Inl e
           | Inr lastIndex \<Rightarrow>
               (case (if milestoneIndex = lastIndex then
                        (case checked_sub (payment c) (releasedAmount c) of
                           Inl e \<Rightarrow> Inl e
                         | Inr amount \<Rightarrow> Inr (amount, c\<lparr>status := COMPLETED\<rparr>))
                      else Inr (perMilestone, c)) of
                  Inl e \<Rightarrow> Inl e
                | Inr (amount, c') \<Rightarrow>
                    (case checked_add (releasedAmount c') amount of
                       Inl e \<Rightarrow> Inl e
                     | Inr released \<Rightarrow> Inr (amount, c'\<lparr>releasedAmount := released\<rparr>)))))"

text \<open>
  The function is \<^verbatim>\<open>nonReentrant\<close>; for a call that starts a transaction the guard is
  open, and a nested call made by the carrier while it is paid cannot touch the record
  being verified (it is ACTIVE or COMPLETED, so \<open>acceptContract\<close> rejects it, and
  \<open>createContract\<close> writes a fresh identifier). The model is of top-level calls.
\<close>

definition verifyMilestone ::
  "(bytes \<Rightarrow> bytes32) \<Rightarrow> TrackFlow \<Rightarrow> address \<Rightarrow> uint256 \<Rightarrow> uint256 \<Rightarrow> bytes \<Rightarrow> bool \<Rightarrow>
   error + TrackFlow" where
  "verifyMilestone H s sender contractId milestoneIndex qrData sent =
     (let c = contracts s contractId in
      if status c \<noteq> ACTIVE then Inl InvalidStatus
      else if \<not> unat milestoneIndex < length (milestones c) then Inl InvalidMilestone
      else if milestoneIndex \<noteq> completedMilestones c then Inl OutOfOrder
      else
        let milestone = milestones c ! unat milestoneIndex in
        if completed milestone then Inl AlreadyVerified
        else if verifier milestone \<noteq> sender then Inl NotAuthorized
        else if H qrData \<noteq> qrHash milestone then Inl InvalidQRCode
        else
          let c1 = c\<lparr>milestones :=
                       (milestones c)[unat milestoneIndex := milestone\<lparr>completed := True\<rparr>]\<rparr>
          in case checked_add (completedMilestones c1) 1 of
               Inl e \<Rightarrow> Inl e
             | Inr n \<Rightarrow>
                 (case releasePayment (c1\<lparr>completedMilestones := n\<rparr>) milestoneIndex of
                    Inl e \<Rightarrow> Inl e
                  | Inr (amount, c2) \<Rightarrow>
                      if \<not> sent then Inl FailedToSendPayment
                      else Inr (s\<lparr>contracts := (contracts s)(contractId := c2),
                                  transfers := transfers s @ [(carrier c2, amount)],
                                  events := events s @
                                    [PaymentReleased contractId (carrier c2) amount milestoneIndex,
                                     MilestoneVerified contractId milestoneIndex
                                       (location milestone) sender]\<rparr>)))"

subsection \<open>The views\<close>

definition getContract ::
  "TrackFlow \<Rightarrow> uint256 \<Rightarrow>
   error + (address \<times> address \<times> address \<times> uint256 \<times> Status \<times> uint256 \<times> uint256)" where
  "getContract s contractId =
     (let c = contracts s contractId in
      Inr (shipper c, carrier c, recipient c, payment c, status c,
           of_nat (length (milestones c)), completedMilestones c))"

definition getMilestone ::
  "TrackFlow \<Rightarrow> uint256 \<Rightarrow> uint256 \<Rightarrow> error + (string \<times> address \<times> bool)" where
  "getMilestone s contractId milestoneIndex =
     (let c = contracts s contractId in
      if \<not> unat milestoneIndex < length (milestones c) then Inl InvalidMilestone
      else
        let m = milestones c ! unat milestoneIndex in
        Inr (location m, verifier m, completed m))"

subsection \<open>Transactions\<close>

text \<open>
  A call to one of the three state-changing functions, with the sender, the value sent
  along and, for \<open>verifyMilestone\<close>, whether the carrier accepts the payment.
\<close>

datatype Call =
    CreateContract address uint256 address address "string list" "address list"
  | AcceptContract address uint256
  | VerifyMilestone address uint256 uint256 bytes bool

text \<open>A transaction commits the state the function returns, or reverts to the state before.\<close>

fun transact :: "(bytes \<Rightarrow> bytes32) \<Rightarrow> TrackFlow \<Rightarrow> Call \<Rightarrow> TrackFlow" where
  "transact H s (CreateContract sender val carrier' recipient' locations verifiers) =
     (case createContract H s sender val carrier' recipient' locations verifiers of
        Inl e \<Rightarrow> s | Inr (contractId, s') \<Rightarrow> s')"
| "transact H s (AcceptContract sender contractId) =
     (case acceptContract s sender contractId of Inl e \<Rightarrow> s | Inr s' \<Rightarrow> s')"
| "transact H s (VerifyMilestone sender contractId milestoneIndex qrData sent) =
     (case verifyMilestone H s sender contractId milestoneIndex qrData sent of
        Inl e \<Rightarrow> s | Inr s' \<Rightarrow> s')"

text \<open>The length of a calldata array is a \<^verbatim>\<open>uint256\<close>.\<close>

fun wellFormed :: "Call \<Rightarrow> bool" where
  "wellFormed (CreateContract sender val carrier' recipient' locations verifiers) =
     (length locations < 2 ^ 256 \<and> length verifiers < 2 ^ 256)"
| "wellFormed _ = True"

inductive reachable :: "(bytes \<Rightarrow> bytes32) \<Rightarrow> TrackFlow \<Rightarrow> bool" for H where
  reachable_deployed: "reachable H deployed"
| reachable_transact: "reachable H s \<Longrightarrow> wellFormed call \<Longrightarrow> reachable H (transact H s call)"

text \<open>The total of the amounts of the \<open>PaymentReleased\<close> events of one contract.\<close>

fun releasedTotal :: "Event list \<Rightarrow> uint256 \<Rightarrow> nat" where
  "releasedTotal [] contractId = 0"
| "releasedTotal (PaymentReleased k to amount i # es) contractId =
     (if k = contractId then unat amount else 0) + releasedTotal es contractId"
| "releasedTotal (e # es) contractId = releasedTotal es contractId"

subsection \<open>Invariants of the registry\<close>

text \<open>
  What holds of a record whose identifier was allocated: it has milestones, an escrow,
  the first \<open>completedMilestones\<close> milestones are the completed ones, each commitment is
  the hash of the packed identifier, location and verifier, and the running total is
  the number of completed milestones times the share, or the whole escrow at the end.
\<close>

definition contractInv :: "(bytes \<Rightarrow> bytes32) \<Rightarrow> uint256 \<Rightarrow> LogisticsContract \<Rightarrow> bool" where
  "contractInv H contractId c \<longleftrightarrow>
     0 < length (milestones c) \<and> length (milestones c) < 2 ^ 256 \<and>
     0 < payment c \<and>
     (\<forall>i < length (milestones c).
        completed (milestones c ! i) = (i < unat (completedMilestones c))) \<and>
     (\<forall>i < length (milestones c).
        qrHash (milestones c ! i) =
          H (encodePacked contractId (location (milestones c ! i))
               (verifier (milestones c ! i)))) \<and>
     (if status c = COMPLETED
      then unat (completedMilestones c) = length (milestones c) \<and>
           releasedAmount c = payment c
      else unat (completedMilestones c) < length (milestones c) \<and>
           unat (releasedAmount c) =
             unat (completedMilestones c) * (unat (payment c) div length (milestones c))) \<and>
     (status c = CREATED \<longrightarrow> completedMilestones c = 0)"

text \<open>What holds of a slot whose identifier was not allocated yet.\<close>

definition unusedSlot :: "LogisticsContract \<Rightarrow> bool" where
  "unusedSlot c \<longleftrightarrow>
     shipper c = 0 \<and> carrier c = 0 \<and> recipient c = 0 \<and> payment c = 0 \<and>
     releasedAmount c = 0 \<and> status c \<noteq> COMPLETED \<and> milestones c = [] \<and>
     completedMilestones c = 0"

definition registryInv :: "(bytes \<Rightarrow> bytes32) \<Rightarrow> TrackFlow \<Rightarrow> bool" where
  "registryInv H s \<longleftrightarrow>
     (\<forall>contractId.
        (if contractId < nextContractId s
         then contractInv H contractId (contracts s contractId)
         else unusedSlot (contracts s contractId)) \<and>
        releasedTotal (events s) contractId =
          unat (releasedAmount (contracts s contractId)))"

subsection \<open>Runs of the contract\<close>

text \<open>The transactions of a list, one after the other.\<close>

definition run :: "(bytes \<Rightarrow> bytes32) \<Rightarrow> TrackFlow \<Rightarrow> Call list \<Rightarrow> TrackFlow" where
  "run H s calls = foldl (transact H) s calls"

text \<open>
  The scenario of the specification, from the deployed contract: escrow 100, milestones
  A, B, C with verifiers 4, 5, 4, shipper 1, carrier 2, recipient 3. To run it the hash
  must be a concrete function; \<open>exampleHash\<close> stands in for \<^verbatim>\<open>keccak256\<close> in these
  runs and nowhere else.
\<close>

definition exampleHash :: "bytes \<Rightarrow> bytes32" where
  "exampleHash bs = of_nat (length bs)"

definition scenarioCreated :: TrackFlow where
  "scenarioCreated =
     transact exampleHash deployed (CreateContract 1 100 2 3 [''A'', ''B'', ''C''] [4, 5, 4])"

definition scenarioAccepted :: TrackFlow where
  "scenarioAccepted = transact exampleHash scenarioCreated (AcceptContract 2 0)"

definition scenarioFirst :: TrackFlow where
  "scenarioFirst =
     transact exampleHash scenarioAccepted
       (VerifyMilestone 4 0 0 (encodePacked 0 ''A'' 4) True)"

definition scenarioSecond :: TrackFlow where
  "scenarioSecond =
     transact exampleHash scenarioFirst
       (VerifyMilestone 5 0 1 (encodePacked 0 ''B'' 5) True)"

definition scenarioThird :: TrackFlow where
  "scenarioThird =
     transact exampleHash scenarioSecond
       (VerifyMilestone 4 0 2 (encodePacked 0 ''C'' 4) True)"

text \<open>A contract of one milestone, escrow 7, and one whose two milestones are alike.\<close>

definition singleAccepted :: TrackFlow where
  "singleAccepted =
     transact exampleHash
       (transact exampleHash deployed (CreateContract 1 7 2 3 [''A''] [4]))
       (AcceptContract 2 0)"

definition singleVerified :: TrackFlow where
  "singleVerified =
     transact exampleHash singleAccepted
       (VerifyMilestone 4 0 0 (encodePacked 0 ''A'' 4) True)"

definition twinCreated :: TrackFlow where
  "twinCreated =
     transact exampleHash deployed (CreateContract 1 10 2 3 [''A'', ''A''] [4, 4])"

section \<open>Properties\<close>

subsection \<open>Arithmetic, lists and the packed encoding\<close>

lemma share_times_le:
  fixes p n k :: nat
  assumes "k \<le> n"
  shows "k * (p div n) \<le> p"
proof -
  have "k * (p div n) \<le> n * (p div n)"
    using assms by (rule mult_le_mono1)
  also have "\<dots> \<le> p" by simp
  finally show ?thesis .
qed

lemma share_times_less:
  fixes p n k :: nat
  assumes "k < n" "0 < p"
  shows "k * (p div n) < p"
proof (cases "p div n = 0")
  case True
  with assms show ?thesis by simp
next
  case False
  then have "k * (p div n) < n * (p div n)"
    using assms by simp
  also have "\<dots> \<le> p" by simp
  finally show ?thesis .
qed

lemma unat_uint256_of_nat: "n < 2 ^ 256 \<Longrightarrow> unat (of_nat n :: uint256) = n"
  by (simp add: unat_of_nat)

lemma word_less_succ:
  fixes n k :: uint256
  assumes "unat n + 1 < 2 ^ 256"
  shows "k < n + 1 \<longleftrightarrow> k < n \<or> k = n"
proof -
  have "unat (n + 1) = unat n + 1"
    using assms unat_add_lem [of n 1] by simp
  then show ?thesis
    by (auto simp: word_less_nat_alt word_unat_eq_iff)
qed

lemma releasedTotal_append:
  "releasedTotal (es @ fs) k = releasedTotal es k + releasedTotal fs k"
  by (induction es k rule: releasedTotal.induct) simp_all

lemma length_be_bytes: "length (be_bytes k x) = k"
  by (induction k arbitrary: x) simp_all

lemma length_encodePacked: "length (encodePacked cid loc ver) = 52 + length loc"
  by (simp add: encodePacked_def length_be_bytes)

lemma run_Nil: "run H s [] = s"
  by (simp add: run_def)

lemma run_snoc: "run H s (calls @ [call]) = transact H (run H s calls) call"
  by (simp add: run_def)

subsection \<open>The functions, case by case\<close>

lemma pushMilestones_eq:
  "pushMilestones H cid locs vers i ms =
     ms @ map (\<lambda>j. \<lparr>qrHash = H (encodePacked cid (locs ! j) (vers ! j)),
                     location = locs ! j, verifier = vers ! j, completed = False\<rparr>) [i..<length locs]"
proof (induction H cid locs vers i ms rule: pushMilestones.induct)
  case (1 H cid locs vers i ms)
  show ?case
  proof (cases "i < length locs")
    case True
    with 1 show ?thesis
      by (subst pushMilestones.simps) (simp add: upt_conv_Cons)
  next
    case False
    then show ?thesis by (subst pushMilestones.simps) simp
  qed
qed

lemma createContract_cases:
  "createContract H s sender val carrier' recipient' locations verifiers =
     (if val = 0 then Inl PaymentRequired
      else if carrier' = 0 then Inl InvalidCarrier
      else if recipient' = 0 then Inl InvalidRecipient
      else if locations = [] then Inl NoMilestones
      else if length locations \<noteq> length verifiers then Inl MismatchedArrays
      else if \<not> unat (nextContractId s) + 1 < 2 ^ 256 then Inl Panic
      else Inr (nextContractId s,
             s\<lparr>nextContractId := nextContractId s + 1,
               contracts := (contracts s)(nextContractId s :=
                 (contracts s (nextContractId s))
                   \<lparr>shipper := sender, carrier := carrier', recipient := recipient',
                    payment := val, releasedAmount := 0, status := CREATED,
                    milestones := milestones (contracts s (nextContractId s)) @
                      map (\<lambda>j. \<lparr>qrHash = H (encodePacked (nextContractId s)
                                              (locations ! j) (verifiers ! j)),
                                  location = locations ! j, verifier = verifiers ! j,
                                  completed = False\<rparr>) [0..<length locations]\<rparr>),
               events := events s @
                 [ContractCreated (nextContractId s) sender carrier' recipient' val]\<rparr>))"
  by (simp add: createContract_def Let_def checked_add_def pushMilestones_eq word_gt_0
        del: One_nat_def)

lemma acceptContract_cases:
  "acceptContract s sender contractId =
     (if carrier (contracts s contractId) \<noteq> sender then Inl NotTheCarrier
      else if status (contracts s contractId) \<noteq> CREATED then Inl InvalidStatus
      else Inr (s\<lparr>contracts := (contracts s)
                     (contractId := (contracts s contractId)\<lparr>status := ACTIVE\<rparr>),
                  events := events s @ [ContractAccepted contractId sender]\<rparr>))"
  by (simp add: acceptContract_def Let_def)

lemma verifyMilestone_rejects:
  "status (contracts s cid) \<noteq> ACTIVE \<Longrightarrow>
     verifyMilestone H s sender cid i qr sent = Inl InvalidStatus"
  "status (contracts s cid) = ACTIVE \<Longrightarrow> \<not> unat i < length (milestones (contracts s cid)) \<Longrightarrow>
     verifyMilestone H s sender cid i qr sent = Inl InvalidMilestone"
  "status (contracts s cid) = ACTIVE \<Longrightarrow> unat i < length (milestones (contracts s cid)) \<Longrightarrow>
     i \<noteq> completedMilestones (contracts s cid) \<Longrightarrow>
     verifyMilestone H s sender cid i qr sent = Inl OutOfOrder"
  by (simp_all add: verifyMilestone_def Let_def)

lemma verifyMilestone_InrD:
  assumes "verifyMilestone H s sender cid i qr sent = Inr s'"
  shows "status (contracts s cid) = ACTIVE"
    and "unat i < length (milestones (contracts s cid))"
    and "i = completedMilestones (contracts s cid)"
    and "verifier (milestones (contracts s cid) ! unat i) = sender"
    and "H qr = qrHash (milestones (contracts s cid) ! unat i)"
    and "sent"
  using assms
  by (simp_all add: verifyMilestone_def Let_def split: if_splits sum.splits prod.splits)

lemma releasePayment_ok:
  assumes n: "0 < length (milestones c)" "length (milestones c) < 2 ^ 256"
    and k: "unat i < length (milestones c)"
    and rel: "unat (releasedAmount c) =
                unat i * (unat (payment c) div length (milestones c))"
  shows "\<exists>amount.
           releasePayment c i =
             Inr (amount,
                  c\<lparr>status := (if unat i = length (milestones c) - 1 then COMPLETED else status c),
                    releasedAmount := releasedAmount c + amount\<rparr>) \<and>
           unat amount =
             (if unat i = length (milestones c) - 1
              then unat (payment c) - unat (releasedAmount c)
              else unat (payment c) div length (milestones c)) \<and>
           unat (releasedAmount c + amount) = unat (releasedAmount c) + unat amount \<and>
           (unat i = length (milestones c) - 1 \<longrightarrow> releasedAmount c + amount = payment c)"
proof -
  define m where "m = length (milestones c)"
  define total :: uint256 where "total = of_nat m"
  have m: "0 < m" "m < 2 ^ 256" "unat i < m"
    using n k by (simp_all add: m_def)
  have ut: "unat total = m"
    using m by (simp add: total_def unat_uint256_of_nat)
  have t0: "total \<noteq> 0"
    using ut m by auto
  have one_le: "1 \<le> total"
    using ut m by (simp add: word_le_nat_alt Suc_le_eq)
  have ul: "unat (total - 1) = m - 1"
    using t0 ut by (simp add: unat_minus_one)
  have last_iff: "i = total - 1 \<longleftrightarrow> unat i = m - 1"
    using ul by (simp add: word_unat_eq_iff)
  have rle: "unat (releasedAmount c) \<le> unat (payment c)"
    using rel m share_times_le [of "unat i" m "unat (payment c)"] by (simp add: m_def)
  have p_lt: "unat (payment c) < 2 ^ 256"
    using unsigned_less [of "payment c"] by simp
  show ?thesis
  proof (cases "unat i = m - 1")
    case True
    have le: "releasedAmount c \<le> payment c"
      using rle by (simp add: word_le_nat_alt)
    have ua: "unat (payment c - releasedAmount c) = unat (payment c) - unat (releasedAmount c)"
      using le by (rule unat_sub)
    have sum: "unat (releasedAmount c) + unat (payment c - releasedAmount c) < 2 ^ 256"
      using ua rle p_lt by simp
    have eq: "releasePayment c i =
        Inr (payment c - releasedAmount c,
             c\<lparr>status := COMPLETED, releasedAmount := releasedAmount c + (payment c - releasedAmount c)\<rparr>)"
      using True t0 one_le le sum last_iff
      by (simp add: releasePayment_def Let_def checked_div_def checked_sub_def checked_add_def
            total_def m_def)
    show ?thesis
      using True eq ua rle by (intro exI [of _ "payment c - releasedAmount c"]) (simp add: m_def)
  next
    case False
    have ud: "unat (payment c div total) = unat (payment c) div m"
      by (simp add: unat_div ut)
    have "Suc (unat i) * (unat (payment c) div m) \<le> unat (payment c)"
      using k by (intro share_times_le) (simp add: m_def)
    then have sum: "unat (releasedAmount c) + unat (payment c div total) < 2 ^ 256"
      using rel ud p_lt by (simp add: m_def)
    have eq: "releasePayment c i =
        Inr (payment c div total, c\<lparr>releasedAmount := releasedAmount c + payment c div total\<rparr>)"
      using False t0 one_le sum last_iff
      by (simp add: releasePayment_def Let_def checked_div_def checked_sub_def checked_add_def
            total_def m_def)
    have "unat (releasedAmount c + payment c div total) =
            unat (releasedAmount c) + unat (payment c div total)"
      using sum by (simp add: unat_add_lem [THEN iffD1])
    then show ?thesis
      using False eq ud by (intro exI [of _ "payment c div total"]) (simp add: m_def)
  qed
qed

lemma verifyMilestone_ok:
  assumes inv: "contractInv H cid (contracts s cid)"
    and st: "status (contracts s cid) = ACTIVE"
    and i: "i = completedMilestones (contracts s cid)"
    and ver: "verifier (milestones (contracts s cid) ! unat i) = sender"
    and hash: "H qr = qrHash (milestones (contracts s cid) ! unat i)"
  shows "\<exists>amount.
     verifyMilestone H s sender cid i qr sent =
       (if sent then
          Inr (s\<lparr>contracts := (contracts s)(cid := (contracts s cid)
                   \<lparr>milestones := (milestones (contracts s cid))
                      [unat i := (milestones (contracts s cid) ! unat i)\<lparr>completed := True\<rparr>],
                    completedMilestones := i + 1,
                    status := (if unat i = length (milestones (contracts s cid)) - 1
                               then COMPLETED else ACTIVE),
                    releasedAmount := releasedAmount (contracts s cid) + amount\<rparr>),
                 transfers := transfers s @ [(carrier (contracts s cid), amount)],
                 events := events s @
                   [PaymentReleased cid (carrier (contracts s cid)) amount i,
                    MilestoneVerified cid i
                      (location (milestones (contracts s cid) ! unat i)) sender]\<rparr>)
        else Inl FailedToSendPayment) \<and>
     unat i < length (milestones (contracts s cid)) \<and>
     unat (i + 1) = unat i + 1 \<and>
     unat amount =
       (if unat i = length (milestones (contracts s cid)) - 1
        then unat (payment (contracts s cid)) - unat (releasedAmount (contracts s cid))
        else unat (payment (contracts s cid)) div length (milestones (contracts s cid))) \<and>
     unat (releasedAmount (contracts s cid) + amount) =
       unat (releasedAmount (contracts s cid)) + unat amount \<and>
     (unat i = length (milestones (contracts s cid)) - 1 \<longrightarrow>
        releasedAmount (contracts s cid) + amount = payment (contracts s cid))"
proof -
  let ?c = "contracts s cid"
  let ?ms = "milestones ?c"
  let ?c1 = "?c\<lparr>milestones := ?ms[unat i := (?ms ! unat i)\<lparr>completed := True\<rparr>]\<rparr>"
  let ?c2 = "?c1\<lparr>completedMilestones := i + 1\<rparr>"
  have len: "0 < length ?ms" "length ?ms < 2 ^ 256"
    using inv by (simp_all add: contractInv_def)
  have ci: "completedMilestones ?c = i"
    using i by simp
  have k: "unat i < length ?ms"
    using inv st ci by (simp add: contractInv_def)
  have rel: "unat (releasedAmount ?c) = unat i * (unat (payment ?c) div length ?ms)"
    using inv st ci by (simp add: contractInv_def)
  have notdone: "completed (?ms ! unat i) = False"
    using inv k ci by (simp add: contractInv_def)
  have inc: "unat i + unat (1 :: uint256) < 2 ^ 256"
    using k len by simp
  then have uinc: "unat (i + 1) = unat i + 1"
    using unat_add_lem [of i 1] by simp
  have ca: "checked_add (completedMilestones ?c1) 1 = Inr (i + 1)"
    using inc ci by (simp add: checked_add_def)
  have "\<exists>amount.
           releasePayment ?c2 i =
             Inr (amount,
                  ?c2\<lparr>status := (if unat i = length (milestones ?c2) - 1 then COMPLETED else status ?c2),
                     releasedAmount := releasedAmount ?c2 + amount\<rparr>) \<and>
           unat amount =
             (if unat i = length (milestones ?c2) - 1
              then unat (payment ?c2) - unat (releasedAmount ?c2)
              else unat (payment ?c2) div length (milestones ?c2)) \<and>
           unat (releasedAmount ?c2 + amount) = unat (releasedAmount ?c2) + unat amount \<and>
           (unat i = length (milestones ?c2) - 1 \<longrightarrow> releasedAmount ?c2 + amount = payment ?c2)"
    using len k rel by (intro releasePayment_ok) simp_all
  then obtain amount where
    rp0: "releasePayment ?c2 i =
             Inr (amount,
                  ?c2\<lparr>status := (if unat i = length (milestones ?c2) - 1 then COMPLETED else status ?c2),
                     releasedAmount := releasedAmount ?c2 + amount\<rparr>)"
    and am0: "unat amount =
             (if unat i = length (milestones ?c2) - 1
              then unat (payment ?c2) - unat (releasedAmount ?c2)
              else unat (payment ?c2) div length (milestones ?c2))"
    and sum0: "unat (releasedAmount ?c2 + amount) = unat (releasedAmount ?c2) + unat amount"
    and fin0: "unat i = length (milestones ?c2) - 1 \<longrightarrow> releasedAmount ?c2 + amount = payment ?c2"
    by blast
  have rp: "releasePayment ?c2 i =
           Inr (amount,
                ?c2\<lparr>status := (if unat i = length ?ms - 1 then COMPLETED else ACTIVE),
                   releasedAmount := releasedAmount ?c + amount\<rparr>)"
    using rp0 st by simp
  have am: "unat amount =
       (if unat i = length ?ms - 1 then unat (payment ?c) - unat (releasedAmount ?c)
        else unat (payment ?c) div length ?ms)"
    using am0 by simp
  have sum: "unat (releasedAmount ?c + amount) = unat (releasedAmount ?c) + unat amount"
    using sum0 by simp
  have fin: "unat i = length ?ms - 1 \<longrightarrow> releasedAmount ?c + amount = payment ?c"
    using fin0 by simp
  have "verifyMilestone H s sender cid i qr sent =
       (if sent then
          Inr (s\<lparr>contracts := (contracts s)(cid :=
                   ?c2\<lparr>status := (if unat i = length ?ms - 1 then COMPLETED else ACTIVE),
                      releasedAmount := releasedAmount ?c + amount\<rparr>),
                 transfers := transfers s @ [(carrier ?c, amount)],
                 events := events s @
                   [PaymentReleased cid (carrier ?c) amount i,
                    MilestoneVerified cid i (location (?ms ! unat i)) sender]\<rparr>)
        else Inl FailedToSendPayment)"
    unfolding verifyMilestone_def Let_def
    by (simp only: st k ci notdone ver hash [symmetric] ca rp simp_thms if_True if_False
          sum.case prod.case not_False_eq_True not_True_eq_False)
       simp
  then show ?thesis
    using k uinc am sum fin
    by (intro exI [of _ amount]) simp
qed

subsection \<open>The invariant holds in every reachable state\<close>

lemma registryInv_deployed: "registryInv H deployed"
  by (simp add: registryInv_def deployed_def zeroContract_def unusedSlot_def)

lemma contractInv_created:
  assumes "val \<noteq> 0" "locations \<noteq> []" "length locations < 2 ^ 256" "unusedSlot c"
  shows "contractInv H cid
           (c\<lparr>shipper := sender, carrier := carrier', recipient := recipient',
              payment := val, releasedAmount := 0, status := CREATED,
              milestones := milestones c @
                map (\<lambda>j. \<lparr>qrHash = H (encodePacked cid (locations ! j) (verifiers ! j)),
                            location = locations ! j, verifier = verifiers ! j,
                            completed = False\<rparr>) [0..<length locations]\<rparr>)"
  using assms by (simp add: contractInv_def unusedSlot_def word_gt_0)

lemma contractInv_accepted:
  assumes "contractInv H cid c" "status c = CREATED"
  shows "contractInv H cid (c\<lparr>status := ACTIVE\<rparr>)"
  using assms by (simp add: contractInv_def)

lemma contractInv_verified:
  assumes inv: "contractInv H cid c"
    and st: "status c = ACTIVE"
    and i: "completedMilestones c = i"
    and k: "unat i < length (milestones c)"
    and uinc: "unat (i + 1) = unat i + 1"
    and am: "unat amount =
       (if unat i = length (milestones c) - 1
        then unat (payment c) - unat (releasedAmount c)
        else unat (payment c) div length (milestones c))"
    and sum: "unat (releasedAmount c + amount) = unat (releasedAmount c) + unat amount"
    and fin: "unat i = length (milestones c) - 1 \<longrightarrow> releasedAmount c + amount = payment c"
  shows "contractInv H cid
           (c\<lparr>milestones := (milestones c)[unat i := (milestones c ! unat i)\<lparr>completed := True\<rparr>],
              completedMilestones := i + 1,
              status := (if unat i = length (milestones c) - 1 then COMPLETED else ACTIVE),
              releasedAmount := releasedAmount c + amount\<rparr>)"
proof -
  let ?ms = "milestones c"
  let ?ms' = "?ms[unat i := (?ms ! unat i)\<lparr>completed := True\<rparr>]"
  have len: "0 < length ?ms" "length ?ms < 2 ^ 256" and pay: "0 < payment c"
    using inv by (simp_all add: contractInv_def)
  have flags: "\<forall>j < length ?ms. completed (?ms ! j) = (j < unat i)"
    using inv i by (simp add: contractInv_def)
  have hashes: "\<forall>j < length ?ms.
      qrHash (?ms ! j) = H (encodePacked cid (location (?ms ! j)) (verifier (?ms ! j)))"
    using inv by (simp add: contractInv_def)
  have rel: "unat (releasedAmount c) = unat i * (unat (payment c) div length ?ms)"
    using inv st i by (simp add: contractInv_def)
  have flags': "\<forall>j < length ?ms'. completed (?ms' ! j) = (j < unat (i + 1))"
    using flags uinc k by (auto simp: nth_list_update less_Suc_eq)
  have hashes': "\<forall>j < length ?ms'.
      qrHash (?ms' ! j) = H (encodePacked cid (location (?ms' ! j)) (verifier (?ms' ! j)))"
    using hashes k by (simp add: nth_list_update)
  show ?thesis
  proof (cases "unat i = length ?ms - 1")
    case True
    then have "unat (i + 1) = length ?ms"
      using uinc len by simp
    then show ?thesis
      using True len pay flags' hashes' fin
      unfolding contractInv_def by simp
  next
    case False
    then have lt: "unat (i + 1) < length ?ms"
      using uinc k by simp
    have "unat (releasedAmount c + amount) =
            unat (i + 1) * (unat (payment c) div length ?ms)"
      using False sum am rel uinc by simp
    then show ?thesis
      using False len pay flags' hashes' lt
      unfolding contractInv_def by simp
  qed
qed

lemma registryInv_createContract:
  assumes inv: "registryInv H s"
    and wf: "length locations < 2 ^ 256"
    and ok: "createContract H s sender val carrier' recipient' locations verifiers = Inr (cid, s')"
  shows "registryInv H s'"
proof -
  let ?n = "nextContractId s"
  let ?new = "(contracts s ?n)
                   \<lparr>shipper := sender, carrier := carrier', recipient := recipient',
                    payment := val, releasedAmount := 0, status := CREATED,
                    milestones := milestones (contracts s ?n) @
                      map (\<lambda>j. \<lparr>qrHash = H (encodePacked ?n (locations ! j) (verifiers ! j)),
                                  location = locations ! j, verifier = verifiers ! j,
                                  completed = False\<rparr>) [0..<length locations]\<rparr>"
  have pre: "val \<noteq> 0" "locations \<noteq> []" "unat ?n + 1 < 2 ^ 256"
    using ok by (simp_all add: createContract_cases split: if_splits)
  have s': "s' = s\<lparr>nextContractId := ?n + 1,
               contracts := (contracts s)(?n := ?new),
               events := events s @ [ContractCreated ?n sender carrier' recipient' val]\<rparr>"
    using ok by (auto simp: createContract_cases split: if_splits)
  have slot: "unusedSlot (contracts s ?n)"
    using inv by (simp add: registryInv_def)
  have new: "contractInv H ?n ?new"
    using pre wf slot by (intro contractInv_created)
  have tot: "releasedTotal (events s) ?n = 0"
    using inv slot by (simp add: registryInv_def unusedSlot_def)
  show ?thesis
    unfolding registryInv_def
  proof (intro allI conjI)
    fix k
    show "if k < nextContractId s' then contractInv H k (contracts s' k)
          else unusedSlot (contracts s' k)"
    proof (cases "k = ?n")
      case True
      then show ?thesis
        using new pre(3) by (simp add: s' word_less_succ)
    next
      case False
      then show ?thesis
        using inv pre(3) by (simp add: s' word_less_succ registryInv_def)
    qed
    show "releasedTotal (events s') k = unat (releasedAmount (contracts s' k))"
    proof (cases "k = ?n")
      case True
      then show ?thesis
        using tot by (simp add: s' releasedTotal_append)
    next
      case False
      then show ?thesis
        using inv by (simp add: s' releasedTotal_append registryInv_def)
    qed
  qed
qed

lemma registryInv_acceptContract:
  assumes inv: "registryInv H s"
    and ok: "acceptContract s sender cid = Inr s'"
  shows "registryInv H s'"
proof -
  have st: "status (contracts s cid) = CREATED"
    using ok by (simp add: acceptContract_cases split: if_splits)
  have s': "s' = s\<lparr>contracts := (contracts s)(cid := (contracts s cid)\<lparr>status := ACTIVE\<rparr>),
                    events := events s @ [ContractAccepted cid sender]\<rparr>"
    using ok by (simp add: acceptContract_cases split: if_splits)
  show ?thesis
    unfolding registryInv_def
  proof (intro allI conjI)
    fix k
    show "if k < nextContractId s' then contractInv H k (contracts s' k)
          else unusedSlot (contracts s' k)"
    proof (cases "k = cid")
      case True
      show ?thesis
      proof (cases "cid < nextContractId s")
        case True
        then have "contractInv H cid (contracts s cid)"
          using inv by (simp add: registryInv_def)
        then have "contractInv H cid ((contracts s cid)\<lparr>status := ACTIVE\<rparr>)"
          using st by (rule contractInv_accepted)
        then show ?thesis
          using True \<open>k = cid\<close> by (simp add: s')
      next
        case False
        then have "unusedSlot (contracts s cid)"
          using inv by (simp add: registryInv_def)
        then show ?thesis
          using False \<open>k = cid\<close> by (simp add: s' unusedSlot_def)
      qed
    next
      case False
      then show ?thesis
        using inv by (simp add: s' registryInv_def)
    qed
    show "releasedTotal (events s') k = unat (releasedAmount (contracts s' k))"
      using inv by (simp add: s' releasedTotal_append registryInv_def)
  qed
qed

lemma registryInv_allocated:
  assumes "registryInv H s" "milestones (contracts s cid) \<noteq> []"
  shows "cid < nextContractId s" and "contractInv H cid (contracts s cid)"
proof -
  show lt: "cid < nextContractId s"
  proof (rule ccontr)
    assume "\<not> cid < nextContractId s"
    then have "unusedSlot (contracts s cid)"
      using assms(1) by (simp add: registryInv_def)
    then show False
      using assms(2) by (simp add: unusedSlot_def)
  qed
  then show "contractInv H cid (contracts s cid)"
    using assms(1) by (simp add: registryInv_def)
qed

lemma registryInv_verifyMilestone:
  assumes inv: "registryInv H s"
    and ok: "verifyMilestone H s sender cid i qr sent = Inr s'"
  shows "registryInv H s'"
proof -
  let ?c = "contracts s cid"
  let ?ms = "milestones ?c"
  note pre = verifyMilestone_InrD [OF ok]
  have ne: "?ms \<noteq> []"
    using pre(2) by auto
  have cinv: "contractInv H cid ?c"
    using inv ne by (rule registryInv_allocated)
  obtain amount where
    eq: "verifyMilestone H s sender cid i qr sent =
       (if sent then
          Inr (s\<lparr>contracts := (contracts s)(cid := ?c
                   \<lparr>milestones := ?ms[unat i := (?ms ! unat i)\<lparr>completed := True\<rparr>],
                    completedMilestones := i + 1,
                    status := (if unat i = length ?ms - 1 then COMPLETED else ACTIVE),
                    releasedAmount := releasedAmount ?c + amount\<rparr>),
                 transfers := transfers s @ [(carrier ?c, amount)],
                 events := events s @
                   [PaymentReleased cid (carrier ?c) amount i,
                    MilestoneVerified cid i (location (?ms ! unat i)) sender]\<rparr>)
        else Inl FailedToSendPayment)"
    and uinc: "unat (i + 1) = unat i + 1"
    and am: "unat amount =
       (if unat i = length ?ms - 1 then unat (payment ?c) - unat (releasedAmount ?c)
        else unat (payment ?c) div length ?ms)"
    and sum: "unat (releasedAmount ?c + amount) = unat (releasedAmount ?c) + unat amount"
    and fin: "unat i = length ?ms - 1 \<longrightarrow> releasedAmount ?c + amount = payment ?c"
    using verifyMilestone_ok [OF cinv pre(1) pre(3) pre(4) pre(5), of sent] by blast
  let ?c' = "?c\<lparr>milestones := ?ms[unat i := (?ms ! unat i)\<lparr>completed := True\<rparr>],
                    completedMilestones := i + 1,
                    status := (if unat i = length ?ms - 1 then COMPLETED else ACTIVE),
                    releasedAmount := releasedAmount ?c + amount\<rparr>"
  have s': "s' = s\<lparr>contracts := (contracts s)(cid := ?c'),
                 transfers := transfers s @ [(carrier ?c, amount)],
                 events := events s @
                   [PaymentReleased cid (carrier ?c) amount i,
                    MilestoneVerified cid i (location (?ms ! unat i)) sender]\<rparr>"
    using eq ok pre(6) by simp
  have new: "contractInv H cid ?c'"
    using cinv pre(1) pre(3) [symmetric] pre(2) uinc am sum fin
    by (rule contractInv_verified)
  have lt: "cid < nextContractId s"
    using inv ne by (rule registryInv_allocated)
  show ?thesis
    unfolding registryInv_def
  proof (intro allI conjI)
    fix k
    show "if k < nextContractId s' then contractInv H k (contracts s' k)
          else unusedSlot (contracts s' k)"
    proof (cases "k = cid")
      case True
      then show ?thesis
        using new lt by (simp add: s')
    next
      case False
      then show ?thesis
        using inv by (simp add: s' registryInv_def)
    qed
    show "releasedTotal (events s') k = unat (releasedAmount (contracts s' k))"
    proof (cases "k = cid")
      case True
      have "releasedTotal (events s) cid = unat (releasedAmount ?c)"
        using inv by (simp add: registryInv_def)
      then show ?thesis
        using True sum by (simp add: s' releasedTotal_append)
    next
      case False
      then show ?thesis
        using inv by (simp add: s' releasedTotal_append registryInv_def)
    qed
  qed
qed

lemma registryInv_transact:
  assumes "registryInv H s" "wellFormed call"
  shows "registryInv H (transact H s call)"
proof (cases call)
  case (CreateContract sender val carrier' recipient' locations verifiers)
  then show ?thesis
    using assms registryInv_createContract [of H s locations sender val carrier' recipient' verifiers]
    by (auto split: sum.splits)
next
  case (AcceptContract sender cid)
  then show ?thesis
    using assms registryInv_acceptContract [of H s sender cid]
    by (auto split: sum.splits)
next
  case (VerifyMilestone sender cid i qr sent)
  then show ?thesis
    using assms registryInv_verifyMilestone [of H s sender cid i qr sent]
    by (auto split: sum.splits)
qed

lemma reachable_registryInv: "reachable H s \<Longrightarrow> registryInv H s"
  by (induction rule: reachable.induct) (simp_all add: registryInv_deployed registryInv_transact)

lemma reachable_contractInv:
  assumes "reachable H s" "i < length (milestones (contracts s cid))"
  shows "contractInv H cid (contracts s cid)"
proof -
  have "registryInv H s"
    using assms(1) by (rule reachable_registryInv)
  moreover have "milestones (contracts s cid) \<noteq> []"
    using assms(2) by auto
  ultimately show ?thesis
    by (rule registryInv_allocated)
qed

lemma reachable_hash:
  assumes "reachable H s" "i < length (milestones (contracts s cid))"
  shows "qrHash (milestones (contracts s cid) ! i) =
           H (encodePacked cid (location (milestones (contracts s cid) ! i))
                (verifier (milestones (contracts s cid) ! i)))"
proof -
  have "registryInv H s"
    using assms(1) by (rule reachable_registryInv)
  moreover have "milestones (contracts s cid) \<noteq> []"
    using assms(2) by auto
  ultimately have "contractInv H cid (contracts s cid)"
    by (rule registryInv_allocated)
  then show ?thesis
    using assms(2) by (simp add: contractInv_def)
qed

lemma reachable_unused:
  assumes "reachable H s" "\<not> cid < nextContractId s"
  shows "unusedSlot (contracts s cid)"
  using assms reachable_registryInv [of H s] by (simp add: registryInv_def)

subsection \<open>What a transaction does in a reachable state\<close>

lemma verifyMilestone_InrE:
  assumes inv: "registryInv H s"
    and ok: "verifyMilestone H s sender cid i qr sent = Inr s'"
  obtains amount where
    "status (contracts s cid) = ACTIVE"
    "completedMilestones (contracts s cid) = i"
    "unat i < length (milestones (contracts s cid))"
    "cid < nextContractId s"
    "contractInv H cid (contracts s cid)"
    "s' = s\<lparr>contracts := (contracts s)(cid := (contracts s cid)
              \<lparr>milestones := (milestones (contracts s cid))
                 [unat i := (milestones (contracts s cid) ! unat i)\<lparr>completed := True\<rparr>],
               completedMilestones := i + 1,
               status := (if unat i = length (milestones (contracts s cid)) - 1
                          then COMPLETED else ACTIVE),
               releasedAmount := releasedAmount (contracts s cid) + amount\<rparr>),
            transfers := transfers s @ [(carrier (contracts s cid), amount)],
            events := events s @
              [PaymentReleased cid (carrier (contracts s cid)) amount i,
               MilestoneVerified cid i
                 (location (milestones (contracts s cid) ! unat i)) sender]\<rparr>"
    "unat amount =
       (if unat i = length (milestones (contracts s cid)) - 1
        then unat (payment (contracts s cid)) - unat (releasedAmount (contracts s cid))
        else unat (payment (contracts s cid)) div length (milestones (contracts s cid)))"
    "unat (releasedAmount (contracts s cid) + amount) =
       unat (releasedAmount (contracts s cid)) + unat amount"
    "unat i = length (milestones (contracts s cid)) - 1 \<longrightarrow>
       releasedAmount (contracts s cid) + amount = payment (contracts s cid)"
    "unat (releasedAmount (contracts s cid)) =
       unat i * (unat (payment (contracts s cid)) div length (milestones (contracts s cid)))"
proof -
  let ?c = "contracts s cid"
  let ?ms = "milestones ?c"
  note pre = verifyMilestone_InrD [OF ok]
  have ne: "?ms \<noteq> []"
    using pre(2) by auto
  have lt: "cid < nextContractId s"
    using inv ne by (rule registryInv_allocated)
  have cinv: "contractInv H cid ?c"
    using inv ne by (rule registryInv_allocated)
  have rel: "unat (releasedAmount ?c) = unat i * (unat (payment ?c) div length ?ms)"
    using cinv pre(1) pre(3) by (simp add: contractInv_def)
  obtain amount where
    eq: "verifyMilestone H s sender cid i qr sent =
       (if sent then
          Inr (s\<lparr>contracts := (contracts s)(cid := ?c
                   \<lparr>milestones := ?ms[unat i := (?ms ! unat i)\<lparr>completed := True\<rparr>],
                    completedMilestones := i + 1,
                    status := (if unat i = length ?ms - 1 then COMPLETED else ACTIVE),
                    releasedAmount := releasedAmount ?c + amount\<rparr>),
                 transfers := transfers s @ [(carrier ?c, amount)],
                 events := events s @
                   [PaymentReleased cid (carrier ?c) amount i,
                    MilestoneVerified cid i (location (?ms ! unat i)) sender]\<rparr>)
        else Inl FailedToSendPayment)"
    and am: "unat amount =
       (if unat i = length ?ms - 1 then unat (payment ?c) - unat (releasedAmount ?c)
        else unat (payment ?c) div length ?ms)"
    and sum: "unat (releasedAmount ?c + amount) = unat (releasedAmount ?c) + unat amount"
    and fin: "unat i = length ?ms - 1 \<longrightarrow> releasedAmount ?c + amount = payment ?c"
    using verifyMilestone_ok [OF cinv pre(1) pre(3) pre(4) pre(5), of sent] by blast
  have s': "s' = s\<lparr>contracts := (contracts s)(cid := ?c
                   \<lparr>milestones := ?ms[unat i := (?ms ! unat i)\<lparr>completed := True\<rparr>],
                    completedMilestones := i + 1,
                    status := (if unat i = length ?ms - 1 then COMPLETED else ACTIVE),
                    releasedAmount := releasedAmount ?c + amount\<rparr>),
                 transfers := transfers s @ [(carrier ?c, amount)],
                 events := events s @
                   [PaymentReleased cid (carrier ?c) amount i,
                    MilestoneVerified cid i (location (?ms ! unat i)) sender]\<rparr>"
    using eq ok pre(6) by simp
  show ?thesis
    using pre(1) pre(3) [symmetric] pre(2) lt cinv s' am sum fin rel by (rule that)
qed

lemma verifyMilestone_first_failure:
  assumes "reachable H s"
  shows "\<exists>s'. verifyMilestone H s sender cid i qr sent =
           (if status (contracts s cid) \<noteq> ACTIVE then Inl InvalidStatus
            else if \<not> unat i < length (milestones (contracts s cid)) then Inl InvalidMilestone
            else if i \<noteq> completedMilestones (contracts s cid) then Inl OutOfOrder
            else if verifier (milestones (contracts s cid) ! unat i) \<noteq> sender
              then Inl NotAuthorized
            else if H qr \<noteq> qrHash (milestones (contracts s cid) ! unat i)
              then Inl InvalidQRCode
            else if \<not> sent then Inl FailedToSendPayment
            else Inr s')"
proof (cases "status (contracts s cid) = ACTIVE \<and>
              unat i < length (milestones (contracts s cid)) \<and>
              i = completedMilestones (contracts s cid)")
  case False
  then show ?thesis
    by (auto simp: verifyMilestone_rejects)
next
  case True
  then have st: "status (contracts s cid) = ACTIVE"
    and k: "unat i < length (milestones (contracts s cid))"
    and i: "i = completedMilestones (contracts s cid)"
    by blast+
  have inv: "contractInv H cid (contracts s cid)"
    using assms k by (rule reachable_contractInv)
  have fresh: "\<not> completed (milestones (contracts s cid) ! unat i)"
    using inv k i by (simp add: contractInv_def)
  show ?thesis
  proof (cases "verifier (milestones (contracts s cid) ! unat i) = sender \<and>
                H qr = qrHash (milestones (contracts s cid) ! unat i)")
    case False
    then show ?thesis
      using st k i fresh by (auto simp: verifyMilestone_def Let_def)
  next
    case True
    then have v: "verifier (milestones (contracts s cid) ! unat i) = sender"
      and h: "H qr = qrHash (milestones (contracts s cid) ! unat i)"
      by blast+
    from verifyMilestone_ok [OF inv st i v h, of sent]
    obtain s' where "verifyMilestone H s sender cid i qr sent =
        (if sent then Inr s' else Inl FailedToSendPayment)"
      by blast
    then show ?thesis
      using st k i v h by (intro exI [of _ s']) simp
  qed
qed

lemma transact_keeps_milestone:
  assumes reach: "reachable H s"
    and j: "j < length (milestones (contracts s cid))"
  shows "j < length (milestones (contracts (transact H s call) cid)) \<and>
         qrHash (milestones (contracts (transact H s call) cid) ! j) =
           qrHash (milestones (contracts s cid) ! j) \<and>
         location (milestones (contracts (transact H s call) cid) ! j) =
           location (milestones (contracts s cid) ! j) \<and>
         verifier (milestones (contracts (transact H s call) cid) ! j) =
           verifier (milestones (contracts s cid) ! j)"
proof -
  have inv: "registryInv H s"
    using reach by (rule reachable_registryInv)
  have "milestones (contracts s cid) \<noteq> []"
    using j by auto
  with inv have lt: "cid < nextContractId s"
    by (rule registryInv_allocated)
  show ?thesis
  proof (cases call)
    case (CreateContract sender val carrier' recipient' locations verifiers)
    have "contracts s' cid = contracts s cid"
      if "createContract H s sender val carrier' recipient' locations verifiers = Inr (k, s')"
      for k s'
      using that lt by (auto simp: createContract_cases split: if_splits)
    then show ?thesis
      using CreateContract j by (auto split: sum.splits)
  next
    case (AcceptContract sender k)
    then show ?thesis
      using j by (auto simp: acceptContract_cases)
  next
    case (VerifyMilestone sender k i qr sent)
    show ?thesis
    proof (cases "verifyMilestone H s sender k i qr sent")
      case (Inl e)
      then show ?thesis
        using VerifyMilestone j by simp
    next
      case (Inr s')
      with inv obtain amount where
        i: "unat i < length (milestones (contracts s k))"
        and s': "s' = s\<lparr>contracts := (contracts s)(k := (contracts s k)
              \<lparr>milestones := (milestones (contracts s k))
                 [unat i := (milestones (contracts s k) ! unat i)\<lparr>completed := True\<rparr>],
               completedMilestones := i + 1,
               status := (if unat i = length (milestones (contracts s k)) - 1
                          then COMPLETED else ACTIVE),
               releasedAmount := releasedAmount (contracts s k) + amount\<rparr>),
            transfers := transfers s @ [(carrier (contracts s k), amount)],
            events := events s @
              [PaymentReleased k (carrier (contracts s k)) amount i,
               MilestoneVerified k i
                 (location (milestones (contracts s k) ! unat i)) sender]\<rparr>"
        by (rule verifyMilestone_InrE)
      have "transact H s call = s'"
        using VerifyMilestone Inr by simp
      then show ?thesis
        using j i by (auto simp: s' nth_list_update)
    qed
  qed
qed

lemma transact_status_step:
  assumes reach: "reachable H s"
    and lt: "cid < nextContractId s"
  shows "cid < nextContractId (transact H s call) \<and>
         (status (contracts (transact H s call) cid) = status (contracts s cid) \<or>
          status (contracts s cid) = CREATED \<and>
          status (contracts (transact H s call) cid) = ACTIVE \<and>
          call = AcceptContract (carrier (contracts s cid)) cid \<or>
          status (contracts s cid) = ACTIVE \<and>
          status (contracts (transact H s call) cid) = COMPLETED \<and>
          unat (completedMilestones (contracts s cid)) =
            length (milestones (contracts s cid)) - 1 \<and>
          (\<exists>sender qr.
             call = VerifyMilestone sender cid (completedMilestones (contracts s cid)) qr True))"
proof (cases call)
  case (CreateContract sender val carrier' recipient' locations verifiers)
  show ?thesis
  proof (cases "createContract H s sender val carrier' recipient' locations verifiers")
    case (Inl e)
    then show ?thesis
      using CreateContract lt by simp
  next
    case (Inr r)
    then have room: "unat (nextContractId s) + 1 < 2 ^ 256"
      and next': "nextContractId (snd r) = nextContractId s + 1"
      and same: "contracts (snd r) cid = contracts s cid"
      using lt by (auto simp: createContract_cases split: if_splits)
    have "cid < nextContractId (snd r)"
      using lt room by (simp add: next' word_less_succ)
    then show ?thesis
      using CreateContract Inr same by (simp add: case_prod_beta)
  qed
next
  case (AcceptContract sender k)
  then show ?thesis
    using lt by (auto simp: acceptContract_cases)
next
  case (VerifyMilestone sender k i qr sent)
  show ?thesis
  proof (cases "verifyMilestone H s sender k i qr sent")
    case (Inl e)
    then show ?thesis
      using VerifyMilestone lt by simp
  next
    case (Inr s')
    have inv: "registryInv H s"
      using reach by (rule reachable_registryInv)
    from inv Inr obtain amount where
      st: "status (contracts s k) = ACTIVE"
      and i: "completedMilestones (contracts s k) = i"
      and s': "s' = s\<lparr>contracts := (contracts s)(k := (contracts s k)
              \<lparr>milestones := (milestones (contracts s k))
                 [unat i := (milestones (contracts s k) ! unat i)\<lparr>completed := True\<rparr>],
               completedMilestones := i + 1,
               status := (if unat i = length (milestones (contracts s k)) - 1
                          then COMPLETED else ACTIVE),
               releasedAmount := releasedAmount (contracts s k) + amount\<rparr>),
            transfers := transfers s @ [(carrier (contracts s k), amount)],
            events := events s @
              [PaymentReleased k (carrier (contracts s k)) amount i,
               MilestoneVerified k i
                 (location (milestones (contracts s k) ! unat i)) sender]\<rparr>"
      by (rule verifyMilestone_InrE)
    have sent: "sent"
      using Inr by (rule verifyMilestone_InrD)
    have t: "transact H s call = s'"
      using VerifyMilestone Inr by simp
    have n': "nextContractId (transact H s call) = nextContractId s"
      by (simp add: t s')
    have c': "status (contracts (transact H s call) cid) =
        (if k = cid
         then (if unat i = length (milestones (contracts s k)) - 1 then COMPLETED else ACTIVE)
         else status (contracts s cid))"
      by (simp add: t s')
    show ?thesis
      unfolding n' c'
      using lt st i sent VerifyMilestone by auto
  qed
qed

subsection \<open>The runs, evaluated\<close>

lemma scenarioCreated_eq:
  "scenarioCreated =
     \<lparr>contracts = (\<lambda>_. zeroContract)(0 :=
        \<lparr>shipper = 1, carrier = 2, recipient = 3, payment = 100, releasedAmount = 0,
         status = CREATED,
         milestones =
           [\<lparr>qrHash = exampleHash (encodePacked 0 ''A'' 4), location = ''A'', verifier = 4,
              completed = False\<rparr>,
            \<lparr>qrHash = exampleHash (encodePacked 0 ''B'' 5), location = ''B'', verifier = 5,
              completed = False\<rparr>,
            \<lparr>qrHash = exampleHash (encodePacked 0 ''C'' 4), location = ''C'', verifier = 4,
              completed = False\<rparr>],
         completedMilestones = 0\<rparr>),
      nextContractId = 1,
      events = [ContractCreated 0 1 2 3 100],
      transfers = []\<rparr>"
  by (simp add: scenarioCreated_def createContract_cases deployed_def zeroContract_def
        upt_conv_Cons)

lemma scenarioAccepted_eq:
  "scenarioAccepted =
     \<lparr>contracts = (\<lambda>_. zeroContract)(0 :=
        \<lparr>shipper = 1, carrier = 2, recipient = 3, payment = 100, releasedAmount = 0,
         status = ACTIVE,
         milestones =
           [\<lparr>qrHash = exampleHash (encodePacked 0 ''A'' 4), location = ''A'', verifier = 4,
              completed = False\<rparr>,
            \<lparr>qrHash = exampleHash (encodePacked 0 ''B'' 5), location = ''B'', verifier = 5,
              completed = False\<rparr>,
            \<lparr>qrHash = exampleHash (encodePacked 0 ''C'' 4), location = ''C'', verifier = 4,
              completed = False\<rparr>],
         completedMilestones = 0\<rparr>),
      nextContractId = 1,
      events = [ContractCreated 0 1 2 3 100, ContractAccepted 0 2],
      transfers = []\<rparr>"
  by (simp add: scenarioAccepted_def scenarioCreated_eq acceptContract_cases)

lemma scenarioFirst_eq:
  "scenarioFirst =
     \<lparr>contracts = (\<lambda>_. zeroContract)(0 :=
        \<lparr>shipper = 1, carrier = 2, recipient = 3, payment = 100, releasedAmount = 33,
         status = ACTIVE,
         milestones =
           [\<lparr>qrHash = exampleHash (encodePacked 0 ''A'' 4), location = ''A'', verifier = 4,
              completed = True\<rparr>,
            \<lparr>qrHash = exampleHash (encodePacked 0 ''B'' 5), location = ''B'', verifier = 5,
              completed = False\<rparr>,
            \<lparr>qrHash = exampleHash (encodePacked 0 ''C'' 4), location = ''C'', verifier = 4,
              completed = False\<rparr>],
         completedMilestones = 1\<rparr>),
      nextContractId = 1,
      events = [ContractCreated 0 1 2 3 100, ContractAccepted 0 2,
                PaymentReleased 0 2 33 0, MilestoneVerified 0 0 ''A'' 4],
      transfers = [(2, 33)]\<rparr>"
  by (simp add: scenarioFirst_def scenarioAccepted_eq verifyMilestone_def releasePayment_def
        checked_add_def checked_sub_def checked_div_def Let_def)

lemma scenarioSecond_eq:
  "scenarioSecond =
     \<lparr>contracts = (\<lambda>_. zeroContract)(0 :=
        \<lparr>shipper = 1, carrier = 2, recipient = 3, payment = 100, releasedAmount = 66,
         status = ACTIVE,
         milestones =
           [\<lparr>qrHash = exampleHash (encodePacked 0 ''A'' 4), location = ''A'', verifier = 4,
              completed = True\<rparr>,
            \<lparr>qrHash = exampleHash (encodePacked 0 ''B'' 5), location = ''B'', verifier = 5,
              completed = True\<rparr>,
            \<lparr>qrHash = exampleHash (encodePacked 0 ''C'' 4), location = ''C'', verifier = 4,
              completed = False\<rparr>],
         completedMilestones = 2\<rparr>),
      nextContractId = 1,
      events = [ContractCreated 0 1 2 3 100, ContractAccepted 0 2,
                PaymentReleased 0 2 33 0, MilestoneVerified 0 0 ''A'' 4,
                PaymentReleased 0 2 33 1, MilestoneVerified 0 1 ''B'' 5],
      transfers = [(2, 33), (2, 33)]\<rparr>"
  by (simp add: scenarioSecond_def scenarioFirst_eq verifyMilestone_def releasePayment_def
        checked_add_def checked_sub_def checked_div_def Let_def)

lemma scenarioThird_eq:
  "scenarioThird =
     \<lparr>contracts = (\<lambda>_. zeroContract)(0 :=
        \<lparr>shipper = 1, carrier = 2, recipient = 3, payment = 100, releasedAmount = 100,
         status = COMPLETED,
         milestones =
           [\<lparr>qrHash = exampleHash (encodePacked 0 ''A'' 4), location = ''A'', verifier = 4,
              completed = True\<rparr>,
            \<lparr>qrHash = exampleHash (encodePacked 0 ''B'' 5), location = ''B'', verifier = 5,
              completed = True\<rparr>,
            \<lparr>qrHash = exampleHash (encodePacked 0 ''C'' 4), location = ''C'', verifier = 4,
              completed = True\<rparr>],
         completedMilestones = 3\<rparr>),
      nextContractId = 1,
      events = [ContractCreated 0 1 2 3 100, ContractAccepted 0 2,
                PaymentReleased 0 2 33 0, MilestoneVerified 0 0 ''A'' 4,
                PaymentReleased 0 2 33 1, MilestoneVerified 0 1 ''B'' 5,
                PaymentReleased 0 2 34 2, MilestoneVerified 0 2 ''C'' 4],
      transfers = [(2, 33), (2, 33), (2, 34)]\<rparr>"
  by (simp add: scenarioThird_def scenarioSecond_eq verifyMilestone_def releasePayment_def
        checked_add_def checked_sub_def checked_div_def Let_def)

lemma reachable_scenario:
  "reachable exampleHash scenarioCreated"
  "reachable exampleHash scenarioAccepted"
  "reachable exampleHash scenarioFirst"
  "reachable exampleHash scenarioSecond"
  "reachable exampleHash scenarioThird"
  unfolding scenarioCreated_def scenarioAccepted_def scenarioFirst_def scenarioSecond_def
    scenarioThird_def
  by (simp_all add: reachable_deployed reachable_transact del: transact.simps)

lemma scenario_verify_first:
  "verifyMilestone exampleHash scenarioAccepted 4 0 0 (encodePacked 0 ''A'' 4) True =
     Inr scenarioFirst"
  by (simp add: scenarioFirst_eq scenarioAccepted_eq verifyMilestone_def releasePayment_def
        checked_add_def checked_sub_def checked_div_def Let_def)

lemma scenario_verify_second:
  "verifyMilestone exampleHash scenarioFirst 5 0 1 (encodePacked 0 ''B'' 5) True =
     Inr scenarioSecond"
  by (simp add: scenarioSecond_eq scenarioFirst_eq verifyMilestone_def releasePayment_def
        checked_add_def checked_sub_def checked_div_def Let_def)

lemma scenario_verify_third:
  "verifyMilestone exampleHash scenarioSecond 4 0 2 (encodePacked 0 ''C'' 4) True =
     Inr scenarioThird"
  by (simp add: scenarioThird_eq scenarioSecond_eq verifyMilestone_def releasePayment_def
        checked_add_def checked_sub_def checked_div_def Let_def)

lemma singleAccepted_eq:
  "singleAccepted =
     \<lparr>contracts = (\<lambda>_. zeroContract)(0 :=
        \<lparr>shipper = 1, carrier = 2, recipient = 3, payment = 7, releasedAmount = 0,
         status = ACTIVE,
         milestones =
           [\<lparr>qrHash = exampleHash (encodePacked 0 ''A'' 4), location = ''A'', verifier = 4,
              completed = False\<rparr>],
         completedMilestones = 0\<rparr>),
      nextContractId = 1,
      events = [ContractCreated 0 1 2 3 7, ContractAccepted 0 2],
      transfers = []\<rparr>"
  by (simp add: singleAccepted_def createContract_cases acceptContract_cases deployed_def
        zeroContract_def upt_conv_Cons)

lemma singleVerified_eq:
  "singleVerified =
     \<lparr>contracts = (\<lambda>_. zeroContract)(0 :=
        \<lparr>shipper = 1, carrier = 2, recipient = 3, payment = 7, releasedAmount = 7,
         status = COMPLETED,
         milestones =
           [\<lparr>qrHash = exampleHash (encodePacked 0 ''A'' 4), location = ''A'', verifier = 4,
              completed = True\<rparr>],
         completedMilestones = 1\<rparr>),
      nextContractId = 1,
      events = [ContractCreated 0 1 2 3 7, ContractAccepted 0 2,
                PaymentReleased 0 2 7 0, MilestoneVerified 0 0 ''A'' 4],
      transfers = [(2, 7)]\<rparr>"
  by (simp add: singleVerified_def singleAccepted_eq verifyMilestone_def releasePayment_def
        checked_add_def checked_sub_def checked_div_def Let_def)

lemma reachable_singleAccepted: "reachable exampleHash singleAccepted"
  unfolding singleAccepted_def
  by (simp add: reachable_deployed reachable_transact del: transact.simps)

lemma single_verify:
  "verifyMilestone exampleHash singleAccepted 4 0 0 (encodePacked 0 ''A'' 4) True =
     Inr singleVerified"
  by (simp add: singleVerified_eq singleAccepted_eq verifyMilestone_def releasePayment_def
        checked_add_def checked_sub_def checked_div_def Let_def)

lemma twinCreated_eq:
  "twinCreated =
     \<lparr>contracts = (\<lambda>_. zeroContract)(0 :=
        \<lparr>shipper = 1, carrier = 2, recipient = 3, payment = 10, releasedAmount = 0,
         status = CREATED,
         milestones =
           [\<lparr>qrHash = exampleHash (encodePacked 0 ''A'' 4), location = ''A'', verifier = 4,
              completed = False\<rparr>,
            \<lparr>qrHash = exampleHash (encodePacked 0 ''A'' 4), location = ''A'', verifier = 4,
              completed = False\<rparr>],
         completedMilestones = 0\<rparr>),
      nextContractId = 1,
      events = [ContractCreated 0 1 2 3 10],
      transfers = []\<rparr>"
  by (simp add: twinCreated_def createContract_cases deployed_def zeroContract_def
        upt_conv_Cons)

lemma reachable_twinCreated: "reachable exampleHash twinCreated"
  unfolding twinCreated_def
  by (simp add: reachable_deployed reachable_transact del: transact.simps)

section \<open>The claims\<close>

subsection \<open>C1: the amounts released\<close>

text \<open>
  Claim C1. Each successful \<open>verifyMilestone\<close> sends the carrier exactly
  \<open>payment div n\<close> for a milestone that is not the last and exactly
  \<open>payment - releasedAmount\<close> for the last one (index \<open>n - 1\<close>), and adds that amount
  to \<open>releasedAmount\<close> without wrapping. After the last milestone the status is COMPLETED,
  \<open>releasedAmount\<close> is the escrow and the amounts of all \<open>PaymentReleased\<close> events of the
  contract add up to the escrow. A contract of one milestone releases the whole escrow at
  once, and with escrow 100 and three milestones the amounts are 33, 33 and 34.
\<close>

theorem verifyMilestone_releases:
  assumes reach: "reachable H s"
    and ok: "verifyMilestone H s sender cid i qr sent = Inr s'"
  shows "\<exists>amount.
     transfers s' = transfers s @ [(carrier (contracts s cid), amount)] \<and>
     events s' = events s @
       [PaymentReleased cid (carrier (contracts s cid)) amount i,
        MilestoneVerified cid i (location (milestones (contracts s cid) ! unat i)) sender] \<and>
     unat amount =
       (if unat i = length (milestones (contracts s cid)) - 1
        then unat (payment (contracts s cid)) - unat (releasedAmount (contracts s cid))
        else unat (payment (contracts s cid)) div length (milestones (contracts s cid))) \<and>
     payment (contracts s' cid) = payment (contracts s cid) \<and>
     length (milestones (contracts s' cid)) = length (milestones (contracts s cid)) \<and>
     unat (releasedAmount (contracts s' cid)) =
       unat (releasedAmount (contracts s cid)) + unat amount \<and>
     (unat i = length (milestones (contracts s cid)) - 1 \<longrightarrow>
        status (contracts s' cid) = COMPLETED \<and>
        releasedAmount (contracts s' cid) = payment (contracts s cid) \<and>
        releasedTotal (events s') cid = unat (payment (contracts s cid))) \<and>
     (length (milestones (contracts s cid)) = 1 \<longrightarrow> amount = payment (contracts s cid)) \<and>
     (payment (contracts s cid) = 100 \<and> length (milestones (contracts s cid)) = 3 \<longrightarrow>
        unat amount = (if unat i = 2 then 34 else 33))"
proof -
  let ?c = "contracts s cid"
  let ?n = "length (milestones ?c)"
  have inv: "registryInv H s"
    using reach by (rule reachable_registryInv)
  have inv': "registryInv H s'"
    using inv ok by (rule registryInv_verifyMilestone)
  from inv ok obtain amount where
    k: "unat i < ?n"
    and s': "s' = s\<lparr>contracts := (contracts s)(cid := ?c
              \<lparr>milestones := (milestones ?c)
                 [unat i := (milestones ?c ! unat i)\<lparr>completed := True\<rparr>],
               completedMilestones := i + 1,
               status := (if unat i = ?n - 1 then COMPLETED else ACTIVE),
               releasedAmount := releasedAmount ?c + amount\<rparr>),
            transfers := transfers s @ [(carrier ?c, amount)],
            events := events s @
              [PaymentReleased cid (carrier ?c) amount i,
               MilestoneVerified cid i (location (milestones ?c ! unat i)) sender]\<rparr>"
    and am: "unat amount =
       (if unat i = ?n - 1 then unat (payment ?c) - unat (releasedAmount ?c)
        else unat (payment ?c) div ?n)"
    and sum: "unat (releasedAmount ?c + amount) = unat (releasedAmount ?c) + unat amount"
    and fin: "unat i = ?n - 1 \<longrightarrow> releasedAmount ?c + amount = payment ?c"
    and rel: "unat (releasedAmount ?c) = unat i * (unat (payment ?c) div ?n)"
    by (rule verifyMilestone_InrE)
  have total: "releasedTotal (events s') cid = unat (releasedAmount (contracts s' cid))"
    using inv' by (simp add: registryInv_def)
  have single: "amount = payment ?c" if "?n = 1"
  proof -
    have "unat i = 0" using k that by simp
    then have "unat amount = unat (payment ?c)"
      using am rel that by simp
    then show ?thesis by (simp add: word_unat_eq_iff)
  qed
  have hundred: "unat amount = (if unat i = 2 then 34 else 33)"
    if "payment ?c = 100" "?n = 3"
    using am rel that by simp
  have c': "contracts s' cid = ?c
              \<lparr>milestones := (milestones ?c)
                 [unat i := (milestones ?c ! unat i)\<lparr>completed := True\<rparr>],
               completedMilestones := i + 1,
               status := (if unat i = ?n - 1 then COMPLETED else ACTIVE),
               releasedAmount := releasedAmount ?c + amount\<rparr>"
    by (simp add: s')
  have "transfers s' = transfers s @ [(carrier ?c, amount)]"
    and "events s' = events s @
       [PaymentReleased cid (carrier ?c) amount i,
        MilestoneVerified cid i (location (milestones ?c ! unat i)) sender]"
    by (simp_all add: s')
  moreover have "payment (contracts s' cid) = payment ?c"
    and "length (milestones (contracts s' cid)) = ?n"
    and "unat (releasedAmount (contracts s' cid)) = unat (releasedAmount ?c) + unat amount"
    using sum by (simp_all add: c')
  moreover have "unat i = ?n - 1 \<longrightarrow>
        status (contracts s' cid) = COMPLETED \<and>
        releasedAmount (contracts s' cid) = payment ?c \<and>
        releasedTotal (events s') cid = unat (payment ?c)"
    using fin total by (simp add: c')
  ultimately show ?thesis
    using am single hundred by (intro exI [of _ amount]) blast
qed

theorem verifyMilestone_releases_witness:
  "reachable exampleHash scenarioAccepted \<and>
   verifyMilestone exampleHash scenarioAccepted 4 0 0 (encodePacked 0 ''A'' 4) True =
     Inr scenarioFirst \<and>
   transfers scenarioFirst = transfers scenarioAccepted @ [(2, 33)] \<and>
   reachable exampleHash scenarioFirst \<and>
   verifyMilestone exampleHash scenarioFirst 5 0 1 (encodePacked 0 ''B'' 5) True =
     Inr scenarioSecond \<and>
   transfers scenarioSecond = transfers scenarioFirst @ [(2, 33)] \<and>
   reachable exampleHash scenarioSecond \<and>
   verifyMilestone exampleHash scenarioSecond 4 0 2 (encodePacked 0 ''C'' 4) True =
     Inr scenarioThird \<and>
   transfers scenarioThird = transfers scenarioSecond @ [(2, 34)] \<and>
   status (contracts scenarioThird 0) = COMPLETED \<and>
   releasedAmount (contracts scenarioThird 0) = 100 \<and>
   releasedTotal (events scenarioThird) 0 = 100 \<and>
   reachable exampleHash singleAccepted \<and>
   verifyMilestone exampleHash singleAccepted 4 0 0 (encodePacked 0 ''A'' 4) True =
     Inr singleVerified \<and>
   transfers singleVerified = transfers singleAccepted @ [(2, 7)] \<and>
   status (contracts singleVerified 0) = COMPLETED"
proof -
  have r: "reachable exampleHash scenarioAccepted" "reachable exampleHash scenarioFirst"
    "reachable exampleHash scenarioSecond"
    by (rule reachable_scenario)+
  note r1 = reachable_singleAccepted
  have c: "carrier (contracts scenarioAccepted 0) = 2" "carrier (contracts scenarioFirst 0) = 2"
    "carrier (contracts scenarioSecond 0) = 2" "carrier (contracts singleAccepted 0) = 2"
    and p: "payment (contracts scenarioAccepted 0) = 100"
    "payment (contracts scenarioFirst 0) = 100" "payment (contracts scenarioSecond 0) = 100"
    and n: "length (milestones (contracts scenarioAccepted 0)) = 3"
    "length (milestones (contracts scenarioFirst 0)) = 3"
    "length (milestones (contracts scenarioSecond 0)) = 3"
    "length (milestones (contracts singleAccepted 0)) = 1"
    and p1: "payment (contracts singleAccepted 0) = 7"
    by (simp_all add: scenarioAccepted_eq scenarioFirst_eq scenarioSecond_eq singleAccepted_eq)
  from verifyMilestone_releases [OF r(1) scenario_verify_first] obtain a0 where
    "transfers scenarioFirst =
       transfers scenarioAccepted @ [(carrier (contracts scenarioAccepted 0), a0)]"
    and "payment (contracts scenarioAccepted 0) = 100 \<and>
         length (milestones (contracts scenarioAccepted 0)) = 3 \<longrightarrow>
           unat a0 = (if unat (0 :: uint256) = 2 then 34 else 33)"
    by blast
  then have t0: "transfers scenarioFirst = transfers scenarioAccepted @ [(2, 33)]"
    using c p n by (simp add: word_unat_eq_iff)
  from verifyMilestone_releases [OF r(2) scenario_verify_second] obtain a1 where
    "transfers scenarioSecond =
       transfers scenarioFirst @ [(carrier (contracts scenarioFirst 0), a1)]"
    and "payment (contracts scenarioFirst 0) = 100 \<and>
         length (milestones (contracts scenarioFirst 0)) = 3 \<longrightarrow>
           unat a1 = (if unat (1 :: uint256) = 2 then 34 else 33)"
    by blast
  then have t1: "transfers scenarioSecond = transfers scenarioFirst @ [(2, 33)]"
    using c p n by (simp add: word_unat_eq_iff)
  from verifyMilestone_releases [OF r(3) scenario_verify_third] obtain a2 where
    "transfers scenarioThird =
       transfers scenarioSecond @ [(carrier (contracts scenarioSecond 0), a2)]"
    and "payment (contracts scenarioSecond 0) = 100 \<and>
         length (milestones (contracts scenarioSecond 0)) = 3 \<longrightarrow>
           unat a2 = (if unat (2 :: uint256) = 2 then 34 else 33)"
    and f: "unat (2 :: uint256) = length (milestones (contracts scenarioSecond 0)) - 1 \<longrightarrow>
        status (contracts scenarioThird 0) = COMPLETED \<and>
        releasedAmount (contracts scenarioThird 0) = payment (contracts scenarioSecond 0) \<and>
        releasedTotal (events scenarioThird) 0 = unat (payment (contracts scenarioSecond 0))"
    by blast
  then have t2: "transfers scenarioThird = transfers scenarioSecond @ [(2, 34)]"
    using c p n by (simp add: word_unat_eq_iff)
  have f2: "status (contracts scenarioThird 0) = COMPLETED \<and>
        releasedAmount (contracts scenarioThird 0) = 100 \<and>
        releasedTotal (events scenarioThird) 0 = 100"
    using f p n by simp
  from verifyMilestone_releases [OF r1 single_verify] obtain a3 where
    "transfers singleVerified =
       transfers singleAccepted @ [(carrier (contracts singleAccepted 0), a3)]"
    and "length (milestones (contracts singleAccepted 0)) = 1 \<longrightarrow>
           a3 = payment (contracts singleAccepted 0)"
    and g: "unat (0 :: uint256) = length (milestones (contracts singleAccepted 0)) - 1 \<longrightarrow>
        status (contracts singleVerified 0) = COMPLETED \<and>
        releasedAmount (contracts singleVerified 0) = payment (contracts singleAccepted 0) \<and>
        releasedTotal (events singleVerified) 0 = unat (payment (contracts singleAccepted 0))"
    by blast
  then have t3: "transfers singleVerified = transfers singleAccepted @ [(2, 7)]"
    using c n p1 by simp
  have g2: "status (contracts singleVerified 0) = COMPLETED"
    using g n by simp
  show ?thesis
    using r r1 scenario_verify_first scenario_verify_second scenario_verify_third single_verify
      t0 t1 t2 f2 t3 g2
    by blast
qed

subsection \<open>C2: verification in order\<close>

text \<open>
  Claim C2, in the form that holds of the code. Whenever the index is not \<open>completedMilestones\<close>,
  \<open>verifyMilestone\<close> is rejected and the transaction leaves the state as it was, whoever
  calls and whatever bytes are presented: with "Invalid status" when the status is not
  ACTIVE, with "Invalid milestone" when the status is ACTIVE and the index is out of
  range, and with "Out of order" otherwise. In a reachable state the index of a milestone
  that is already completed is never \<open>completedMilestones\<close>, so verifying it again is
  rejected in this way and releases nothing.
\<close>

theorem verifyMilestone_out_of_order:
  assumes "reachable H s"
    and "i \<noteq> completedMilestones (contracts s cid) \<or>
         (unat i < length (milestones (contracts s cid)) \<and>
          completed (milestones (contracts s cid) ! unat i))"
  shows "i \<noteq> completedMilestones (contracts s cid) \<and>
         verifyMilestone H s sender cid i qr sent =
           Inl (if status (contracts s cid) \<noteq> ACTIVE then InvalidStatus
                else if \<not> unat i < length (milestones (contracts s cid)) then InvalidMilestone
                else OutOfOrder) \<and>
         transact H s (VerifyMilestone sender cid i qr sent) = s"
proof -
  have ne: "i \<noteq> completedMilestones (contracts s cid)"
  proof (cases "i \<noteq> completedMilestones (contracts s cid)")
    case True
    then show ?thesis .
  next
    case False
    then have k: "unat i < length (milestones (contracts s cid))"
      and c: "completed (milestones (contracts s cid) ! unat i)"
      using assms(2) by simp_all
    have "contractInv H cid (contracts s cid)"
      using assms(1) k by (rule reachable_contractInv)
    then have "unat i < unat (completedMilestones (contracts s cid))"
      using k c by (simp add: contractInv_def)
    then show ?thesis by auto
  qed
  then have "verifyMilestone H s sender cid i qr sent =
           Inl (if status (contracts s cid) \<noteq> ACTIVE then InvalidStatus
                else if \<not> unat i < length (milestones (contracts s cid)) then InvalidMilestone
                else OutOfOrder)"
    by (simp add: verifyMilestone_rejects)
  then show ?thesis
    using ne by simp
qed

theorem verifyMilestone_out_of_order_counterexample:
  "reachable exampleHash scenarioThird \<and>
   0 \<noteq> completedMilestones (contracts scenarioThird 0) \<and>
   completed (milestones (contracts scenarioThird 0) ! unat (0 :: uint256)) \<and>
   verifyMilestone exampleHash scenarioThird 4 0 0 (encodePacked 0 ''A'' 4) True =
     Inl InvalidStatus \<and>
   verifyMilestone exampleHash scenarioThird 4 0 0 (encodePacked 0 ''A'' 4) True \<noteq>
     Inl OutOfOrder"
  using reachable_scenario(5)
  by (simp add: scenarioThird_eq verifyMilestone_def)

theorem verifyMilestone_out_of_order_witness:
  "reachable exampleHash scenarioFirst \<and>
   unat (0 :: uint256) < length (milestones (contracts scenarioFirst 0)) \<and>
   completed (milestones (contracts scenarioFirst 0) ! unat (0 :: uint256)) \<and>
   verifier (milestones (contracts scenarioFirst 0) ! unat (0 :: uint256)) = 4 \<and>
   verifyMilestone exampleHash scenarioFirst 4 0 0 (encodePacked 0 ''A'' 4) True =
     Inl OutOfOrder \<and>
   transact exampleHash scenarioFirst
     (VerifyMilestone 4 0 0 (encodePacked 0 ''A'' 4) True) = scenarioFirst"
proof -
  have r: "reachable exampleHash scenarioFirst"
    by (rule reachable_scenario)
  have h: "unat (0 :: uint256) < length (milestones (contracts scenarioFirst 0)) \<and>
           completed (milestones (contracts scenarioFirst 0) ! unat (0 :: uint256))"
    and v: "verifier (milestones (contracts scenarioFirst 0) ! unat (0 :: uint256)) = 4"
    and st: "status (contracts scenarioFirst 0) = ACTIVE"
    by (simp_all add: scenarioFirst_eq)
  from verifyMilestone_out_of_order [OF r disjI2, OF h, of 4 "encodePacked 0 ''A'' 4" True]
  have "verifyMilestone exampleHash scenarioFirst 4 0 0 (encodePacked 0 ''A'' 4) True =
          Inl OutOfOrder"
    and "transact exampleHash scenarioFirst
          (VerifyMilestone 4 0 0 (encodePacked 0 ''A'' 4) True) = scenarioFirst"
    using st h by simp_all
  then show ?thesis
    using r h v by blast
qed

subsection \<open>C3: the running total and the escrow\<close>

text \<open>
  Claim C3. In every reachable state, every record whose identifier was allocated has
  \<open>releasedAmount \<le> payment\<close>, and \<open>releasedAmount = payment\<close> exactly when its status is
  COMPLETED. The reachable states are closed under the three operations, so each of them
  preserves this.
\<close>

theorem released_le_payment:
  assumes "reachable H s" "cid < nextContractId s"
  shows "releasedAmount (contracts s cid) \<le> payment (contracts s cid) \<and>
         (releasedAmount (contracts s cid) = payment (contracts s cid) \<longleftrightarrow>
            status (contracts s cid) = COMPLETED)"
proof -
  let ?c = "contracts s cid"
  have inv: "contractInv H cid ?c"
    using assms reachable_registryInv [of H s] by (simp add: registryInv_def)
  show ?thesis
  proof (cases "status ?c = COMPLETED")
    case True
    then show ?thesis
      using inv by (simp add: contractInv_def)
  next
    case False
    then have k: "unat (completedMilestones ?c) < length (milestones ?c)"
      and rel: "unat (releasedAmount ?c) =
        unat (completedMilestones ?c) * (unat (payment ?c) div length (milestones ?c))"
      and pay: "0 < unat (payment ?c)"
      using inv by (simp_all add: contractInv_def word_less_nat_alt)
    have "unat (releasedAmount ?c) < unat (payment ?c)"
      using share_times_less [OF k pay] rel by simp
    then show ?thesis
      using False by (auto simp: word_le_nat_alt)
  qed
qed

theorem released_le_payment_witness:
  "reachable exampleHash scenarioSecond \<and> 0 < nextContractId scenarioSecond \<and>
   releasedAmount (contracts scenarioSecond 0) \<le> payment (contracts scenarioSecond 0) \<and>
   releasedAmount (contracts scenarioSecond 0) \<noteq> payment (contracts scenarioSecond 0) \<and>
   status (contracts scenarioSecond 0) = ACTIVE \<and>
   reachable exampleHash scenarioThird \<and> 0 < nextContractId scenarioThird \<and>
   releasedAmount (contracts scenarioThird 0) = payment (contracts scenarioThird 0)"
proof -
  have a: "reachable exampleHash scenarioSecond" "reachable exampleHash scenarioThird"
    by (rule reachable_scenario)+
  have b: "0 < nextContractId scenarioSecond" "0 < nextContractId scenarioThird"
    by (simp_all add: scenarioSecond_eq scenarioThird_eq)
  have c: "status (contracts scenarioSecond 0) = ACTIVE"
    "status (contracts scenarioThird 0) = COMPLETED"
    by (simp_all add: scenarioSecond_eq scenarioThird_eq)
  show ?thesis
    using a b c released_le_payment [OF a(1) b(1)] released_le_payment [OF a(2) b(2)]
    by simp
qed

subsection \<open>C4: a failed transfer\<close>

text \<open>
  Claim C4. When the transfer to the carrier fails, \<open>verifyMilestone\<close> does not succeed
  and the transaction leaves the state as it was: the completed flag, the count, the
  running total and the status are those before the call. In a reachable state, when
  every check before the transfer passes, the error is "Failed to send payment" (the
  payment error). A call that succeeds is one whose transfer went through, and it
  records exactly one transfer.
\<close>

theorem failed_transfer_rolls_back:
  assumes "reachable H s"
  shows "(\<forall>s'. verifyMilestone H s sender cid i qr False \<noteq> Inr s') \<and>
         transact H s (VerifyMilestone sender cid i qr False) = s \<and>
         (status (contracts s cid) = ACTIVE \<and>
          unat i < length (milestones (contracts s cid)) \<and>
          i = completedMilestones (contracts s cid) \<and>
          verifier (milestones (contracts s cid) ! unat i) = sender \<and>
          H qr = qrHash (milestones (contracts s cid) ! unat i) \<longrightarrow>
            verifyMilestone H s sender cid i qr False = Inl FailedToSendPayment) \<and>
         (verifyMilestone H s sender cid i qr sent = Inr s' \<longrightarrow>
            sent \<and> length (transfers s') = length (transfers s) + 1)"
proof -
  have never: "verifyMilestone H s sender cid i qr False \<noteq> Inr s'" for s'
    using verifyMilestone_InrD(6) [of H s sender cid i qr False s'] by blast
  then have same: "transact H s (VerifyMilestone sender cid i qr False) = s"
    by (cases "verifyMilestone H s sender cid i qr False") auto
  have pay: "verifyMilestone H s sender cid i qr False = Inl FailedToSendPayment"
    if "status (contracts s cid) = ACTIVE"
      and "unat i < length (milestones (contracts s cid))"
      and "i = completedMilestones (contracts s cid)"
      and "verifier (milestones (contracts s cid) ! unat i) = sender"
      and "H qr = qrHash (milestones (contracts s cid) ! unat i)"
  proof -
    have "contractInv H cid (contracts s cid)"
      using assms that(2) by (rule reachable_contractInv)
    from verifyMilestone_ok [OF this that(1) that(3) that(4) that(5), of False]
    show ?thesis by simp
  qed
  have paid: "sent \<and> length (transfers s') = length (transfers s) + 1"
    if ok: "verifyMilestone H s sender cid i qr sent = Inr s'"
  proof -
    have inv: "registryInv H s"
      using assms by (rule reachable_registryInv)
    from inv ok obtain amount where
      "s' = s\<lparr>contracts := (contracts s)(cid := (contracts s cid)
              \<lparr>milestones := (milestones (contracts s cid))
                 [unat i := (milestones (contracts s cid) ! unat i)\<lparr>completed := True\<rparr>],
               completedMilestones := i + 1,
               status := (if unat i = length (milestones (contracts s cid)) - 1
                          then COMPLETED else ACTIVE),
               releasedAmount := releasedAmount (contracts s cid) + amount\<rparr>),
            transfers := transfers s @ [(carrier (contracts s cid), amount)],
            events := events s @
              [PaymentReleased cid (carrier (contracts s cid)) amount i,
               MilestoneVerified cid i
                 (location (milestones (contracts s cid) ! unat i)) sender]\<rparr>"
      by (rule verifyMilestone_InrE)
    then show ?thesis
      using verifyMilestone_InrD(6) [OF ok] by simp
  qed
  show ?thesis
    using never same pay paid by blast
qed

theorem failed_transfer_rolls_back_witness:
  "reachable exampleHash scenarioAccepted \<and>
   status (contracts scenarioAccepted 0) = ACTIVE \<and>
   unat (0 :: uint256) < length (milestones (contracts scenarioAccepted 0)) \<and>
   0 = completedMilestones (contracts scenarioAccepted 0) \<and>
   verifier (milestones (contracts scenarioAccepted 0) ! unat (0 :: uint256)) = 4 \<and>
   exampleHash (encodePacked 0 ''A'' 4) =
     qrHash (milestones (contracts scenarioAccepted 0) ! unat (0 :: uint256)) \<and>
   verifyMilestone exampleHash scenarioAccepted 4 0 0 (encodePacked 0 ''A'' 4) False =
     Inl FailedToSendPayment \<and>
   transact exampleHash scenarioAccepted
     (VerifyMilestone 4 0 0 (encodePacked 0 ''A'' 4) False) = scenarioAccepted \<and>
   verifyMilestone exampleHash scenarioAccepted 4 0 0 (encodePacked 0 ''A'' 4) True =
     Inr scenarioFirst \<and>
   length (transfers scenarioFirst) = length (transfers scenarioAccepted) + 1"
proof -
  have r: "reachable exampleHash scenarioAccepted"
    by (rule reachable_scenario)
  have h: "status (contracts scenarioAccepted 0) = ACTIVE \<and>
   unat (0 :: uint256) < length (milestones (contracts scenarioAccepted 0)) \<and>
   0 = completedMilestones (contracts scenarioAccepted 0) \<and>
   verifier (milestones (contracts scenarioAccepted 0) ! unat (0 :: uint256)) = 4 \<and>
   exampleHash (encodePacked 0 ''A'' 4) =
     qrHash (milestones (contracts scenarioAccepted 0) ! unat (0 :: uint256))"
    by (simp add: scenarioAccepted_eq)
  note t = failed_transfer_rolls_back [OF r, of 4 0 0 "encodePacked 0 ''A'' 4" True scenarioFirst]
  have a: "verifyMilestone exampleHash scenarioAccepted 4 0 0 (encodePacked 0 ''A'' 4) False =
     Inl FailedToSendPayment"
    using t [THEN conjunct2, THEN conjunct2, THEN conjunct1] h by blast
  have b: "transact exampleHash scenarioAccepted
     (VerifyMilestone 4 0 0 (encodePacked 0 ''A'' 4) False) = scenarioAccepted"
    using t [THEN conjunct2, THEN conjunct1] .
  note v = scenario_verify_first
  have c: "length (transfers scenarioFirst) = length (transfers scenarioAccepted) + 1"
    using t [THEN conjunct2, THEN conjunct2, THEN conjunct2] v by blast
  show ?thesis
    using r h a b v c by blast
qed

subsection \<open>C5: the commitment\<close>

text \<open>
  Claim C5, in the form that holds of the code. A milestone pushed by \<open>createContract\<close> stores the hash of the
  packed identifier, location and verifier, and in every reachable state the stored
  commitment is still that hash: no transaction changes the commitment, the location or
  the verifier of a milestone. \<open>verifyMilestone\<close> compares the hash of the presented bytes
  with the stored commitment. It is rejected with "Invalid QR code" (the verification
  error) exactly when the status is ACTIVE, the index is in range and in order, the
  caller is the verifier and the hashes differ; when an earlier check fails, the error
  is that of the earlier check. Whenever the hashes differ the call is rejected and the
  transaction leaves the state as it was.
\<close>

theorem commitment_is_checked:
  assumes "reachable H s"
  shows "(createContract H s shipper' val carrier' recipient' locations verifiers =
            Inr (cid', s') \<and> j < length locations \<longrightarrow>
            milestones (contracts s' cid') ! j =
              \<lparr>qrHash = H (encodePacked cid' (locations ! j) (verifiers ! j)),
               location = locations ! j, verifier = verifiers ! j, completed = False\<rparr>) \<and>
         (unat i < length (milestones (contracts s cid)) \<longrightarrow>
            qrHash (milestones (contracts s cid) ! unat i) =
              H (encodePacked cid (location (milestones (contracts s cid) ! unat i))
                   (verifier (milestones (contracts s cid) ! unat i))) \<and>
            unat i < length (milestones (contracts (transact H s call) cid)) \<and>
            qrHash (milestones (contracts (transact H s call) cid) ! unat i) =
              qrHash (milestones (contracts s cid) ! unat i) \<and>
            location (milestones (contracts (transact H s call) cid) ! unat i) =
              location (milestones (contracts s cid) ! unat i) \<and>
            verifier (milestones (contracts (transact H s call) cid) ! unat i) =
              verifier (milestones (contracts s cid) ! unat i)) \<and>
         (verifyMilestone H s sender cid i qr sent = Inl InvalidQRCode \<longleftrightarrow>
            status (contracts s cid) = ACTIVE \<and>
            unat i < length (milestones (contracts s cid)) \<and>
            i = completedMilestones (contracts s cid) \<and>
            verifier (milestones (contracts s cid) ! unat i) = sender \<and>
            H qr \<noteq> qrHash (milestones (contracts s cid) ! unat i)) \<and>
         (unat i < length (milestones (contracts s cid)) \<and>
          H qr \<noteq> qrHash (milestones (contracts s cid) ! unat i) \<longrightarrow>
            (\<exists>e. verifyMilestone H s sender cid i qr sent = Inl e) \<and>
            transact H s (VerifyMilestone sender cid i qr sent) = s)"
proof -
  have created: "milestones (contracts s' cid') ! j =
              \<lparr>qrHash = H (encodePacked cid' (locations ! j) (verifiers ! j)),
               location = locations ! j, verifier = verifiers ! j, completed = False\<rparr>"
    if c: "createContract H s shipper' val carrier' recipient' locations verifiers =
             Inr (cid', s')"
      and j: "j < length locations"
  proof -
    have cid': "cid' = nextContractId s"
      using c by (simp add: createContract_cases split: if_splits)
    have "unusedSlot (contracts s (nextContractId s))"
      using assms by (rule reachable_unused) simp
    then have empty: "milestones (contracts s (nextContractId s)) = []"
      by (simp add: unusedSlot_def)
    have "milestones (contracts s' cid') =
            map (\<lambda>j. \<lparr>qrHash = H (encodePacked cid' (locations ! j) (verifiers ! j)),
                        location = locations ! j, verifier = verifiers ! j,
                        completed = False\<rparr>) [0..<length locations]"
      using c empty by (auto simp: createContract_cases split: if_splits)
    then show ?thesis
      using j by simp
  qed
  have stored: "qrHash (milestones (contracts s cid) ! unat i) =
              H (encodePacked cid (location (milestones (contracts s cid) ! unat i))
                   (verifier (milestones (contracts s cid) ! unat i)))"
    if "unat i < length (milestones (contracts s cid))"
    using assms that by (rule reachable_hash)
  note kept = transact_keeps_milestone [OF assms, of "unat i" cid call]
  obtain s'' where v: "verifyMilestone H s sender cid i qr sent =
           (if status (contracts s cid) \<noteq> ACTIVE then Inl InvalidStatus
            else if \<not> unat i < length (milestones (contracts s cid)) then Inl InvalidMilestone
            else if i \<noteq> completedMilestones (contracts s cid) then Inl OutOfOrder
            else if verifier (milestones (contracts s cid) ! unat i) \<noteq> sender
              then Inl NotAuthorized
            else if H qr \<noteq> qrHash (milestones (contracts s cid) ! unat i)
              then Inl InvalidQRCode
            else if \<not> sent then Inl FailedToSendPayment
            else Inr s'')"
    using verifyMilestone_first_failure [OF assms, of sender cid i qr sent] by blast
  have iff: "verifyMilestone H s sender cid i qr sent = Inl InvalidQRCode \<longleftrightarrow>
            status (contracts s cid) = ACTIVE \<and>
            unat i < length (milestones (contracts s cid)) \<and>
            i = completedMilestones (contracts s cid) \<and>
            verifier (milestones (contracts s cid) ! unat i) = sender \<and>
            H qr \<noteq> qrHash (milestones (contracts s cid) ! unat i)"
    by (simp add: v)
  have rejected: "(\<exists>e. verifyMilestone H s sender cid i qr sent = Inl e) \<and>
            transact H s (VerifyMilestone sender cid i qr sent) = s"
    if "H qr \<noteq> qrHash (milestones (contracts s cid) ! unat i)"
    using that by (auto simp: v)
  show ?thesis
    using created stored kept iff rejected by blast
qed

theorem commitment_is_checked_counterexample:
  "reachable exampleHash scenarioCreated \<and>
   unat (0 :: uint256) < length (milestones (contracts scenarioCreated 0)) \<and>
   exampleHash [] \<noteq> qrHash (milestones (contracts scenarioCreated 0) ! unat (0 :: uint256)) \<and>
   verifyMilestone exampleHash scenarioCreated 4 0 0 [] True = Inl InvalidStatus \<and>
   verifyMilestone exampleHash scenarioCreated 4 0 0 [] True \<noteq> Inl InvalidQRCode"
  using reachable_scenario(1)
  by (simp add: scenarioCreated_eq verifyMilestone_def exampleHash_def length_encodePacked)

theorem commitment_is_checked_witness:
  "reachable exampleHash deployed \<and>
   createContract exampleHash deployed 1 100 2 3 [''A'', ''B'', ''C''] [4, 5, 4] =
     Inr (0, scenarioCreated) \<and>
   milestones (contracts scenarioCreated 0) ! 1 =
     \<lparr>qrHash = exampleHash (encodePacked 0 ''B'' 5), location = ''B'', verifier = 5,
      completed = False\<rparr> \<and>
   reachable exampleHash scenarioAccepted \<and>
   unat (0 :: uint256) < length (milestones (contracts scenarioAccepted 0)) \<and>
   exampleHash [] \<noteq> qrHash (milestones (contracts scenarioAccepted 0) ! unat (0 :: uint256)) \<and>
   verifyMilestone exampleHash scenarioAccepted 4 0 0 [] True = Inl InvalidQRCode \<and>
   transact exampleHash scenarioAccepted (VerifyMilestone 4 0 0 [] True) = scenarioAccepted \<and>
   qrHash (milestones (contracts scenarioFirst 0) ! unat (0 :: uint256)) =
     exampleHash (encodePacked 0 ''A'' 4)"
proof -
  have r0: "reachable exampleHash deployed"
    by (rule reachable_deployed)
  have c: "createContract exampleHash deployed 1 100 2 3 [''A'', ''B'', ''C''] [4, 5, 4] =
             Inr (0, scenarioCreated)"
    by (simp add: scenarioCreated_eq createContract_cases deployed_def zeroContract_def
          upt_conv_Cons)
  have m: "milestones (contracts scenarioCreated 0) ! 1 =
     \<lparr>qrHash = exampleHash (encodePacked 0 ''B'' 5), location = ''B'', verifier = 5,
      completed = False\<rparr>"
    using commitment_is_checked [OF r0, THEN conjunct1, rule_format, OF conjI, OF c,
        of 1]
    by simp
  have r: "reachable exampleHash scenarioAccepted"
    by (rule reachable_scenario)
  have k: "unat (0 :: uint256) < length (milestones (contracts scenarioAccepted 0))"
    and st: "status (contracts scenarioAccepted 0) = ACTIVE \<and>
             0 = completedMilestones (contracts scenarioAccepted 0) \<and>
             verifier (milestones (contracts scenarioAccepted 0) ! unat (0 :: uint256)) = 4"
    and h: "exampleHash [] \<noteq>
            qrHash (milestones (contracts scenarioAccepted 0) ! unat (0 :: uint256))"
    by (simp_all add: scenarioAccepted_eq exampleHash_def length_encodePacked)
  note t = commitment_is_checked [OF r, of _ _ _ _ _ _ _ _ _ 0 0
      "VerifyMilestone 4 0 0 (encodePacked 0 ''A'' 4) True" 4 "[]" True]
  have a: "verifyMilestone exampleHash scenarioAccepted 4 0 0 [] True = Inl InvalidQRCode"
    using t [THEN conjunct2, THEN conjunct2, THEN conjunct1] k st h by blast
  have b: "transact exampleHash scenarioAccepted (VerifyMilestone 4 0 0 [] True) =
             scenarioAccepted"
    using t [THEN conjunct2, THEN conjunct2, THEN conjunct2] k h by blast
  have "qrHash (milestones (contracts (transact exampleHash scenarioAccepted
            (VerifyMilestone 4 0 0 (encodePacked 0 ''A'' 4) True)) 0) ! unat (0 :: uint256)) =
        qrHash (milestones (contracts scenarioAccepted 0) ! unat (0 :: uint256))"
    using t [THEN conjunct2, THEN conjunct1] k by blast
  then have d: "qrHash (milestones (contracts scenarioFirst 0) ! unat (0 :: uint256)) =
     exampleHash (encodePacked 0 ''A'' 4)"
    by (simp add: scenarioFirst_def [symmetric] del: transact.simps)
       (simp add: scenarioAccepted_eq)
  show ?thesis
    using r0 c m r k h a b d by blast
qed

subsection \<open>C6: the status\<close>

text \<open>
  Claim C6. For a record whose identifier was allocated, each transaction either leaves
  the status as it is, or moves it from CREATED to ACTIVE, and then the transaction is
  \<open>acceptContract\<close> by the carrier, or moves it from ACTIVE to COMPLETED, and then the
  transaction is a \<open>verifyMilestone\<close> of the last milestone whose payment went through.
  So over any sequence of transactions the status never moves backward, never goes from
  CREATED to COMPLETED in one step, and stays COMPLETED once it is.
\<close>

theorem status_moves_forward:
  assumes reach: "reachable H s"
    and lt: "cid < nextContractId s"
  shows "(status (contracts (transact H s call) cid) = status (contracts s cid) \<or>
          status (contracts s cid) = CREATED \<and>
          status (contracts (transact H s call) cid) = ACTIVE \<and>
          call = AcceptContract (carrier (contracts s cid)) cid \<or>
          status (contracts s cid) = ACTIVE \<and>
          status (contracts (transact H s call) cid) = COMPLETED \<and>
          unat (completedMilestones (contracts s cid)) =
            length (milestones (contracts s cid)) - 1 \<and>
          (\<exists>sender qr.
             call = VerifyMilestone sender cid (completedMilestones (contracts s cid)) qr True)) \<and>
         (list_all wellFormed calls \<longrightarrow>
            statusIndex (status (contracts s cid)) \<le>
              statusIndex (status (contracts (run H s calls) cid)) \<and>
            (status (contracts s cid) = COMPLETED \<longrightarrow>
               status (contracts (run H s calls) cid) = COMPLETED))"
proof -
  have mono: "reachable H (run H s calls) \<and> cid < nextContractId (run H s calls) \<and>
              statusIndex (status (contracts s cid)) \<le>
                statusIndex (status (contracts (run H s calls) cid))"
    if "list_all wellFormed calls"
    using that
  proof (induction calls rule: rev_induct)
    case Nil
    show ?case
      using reach lt by (simp add: run_Nil)
  next
    case (snoc call calls)
    then have wf: "wellFormed call"
      and r: "reachable H (run H s calls)"
      and a: "cid < nextContractId (run H s calls)"
      and le: "statusIndex (status (contracts s cid)) \<le>
                statusIndex (status (contracts (run H s calls) cid))"
      by simp_all
    have "statusIndex (status (contracts (run H s calls) cid)) \<le>
          statusIndex (status (contracts (transact H (run H s calls) call) cid))"
      using transact_status_step [OF r a, of call] by auto
    then show ?case
      using transact_status_step [OF r a, of call] r wf le
      by (simp add: run_snoc reachable_transact del: transact.simps)
  qed
  have final: "status (contracts (run H s calls) cid) = COMPLETED"
    if "list_all wellFormed calls" "status (contracts s cid) = COMPLETED"
  proof -
    have "2 \<le> statusIndex (status (contracts (run H s calls) cid))"
      using mono [OF that(1)] that(2) by simp
    then show ?thesis
      by (cases "status (contracts (run H s calls) cid)") simp_all
  qed
  show ?thesis
    using transact_status_step [OF reach lt, of call] mono final by blast
qed

theorem status_moves_forward_witness:
  "reachable exampleHash scenarioSecond \<and> 0 < nextContractId scenarioSecond \<and>
   status (contracts scenarioSecond 0) = ACTIVE \<and>
   status (contracts (transact exampleHash scenarioSecond
     (VerifyMilestone 4 0 2 (encodePacked 0 ''C'' 4) True)) 0) = COMPLETED \<and>
   unat (completedMilestones (contracts scenarioSecond 0)) =
     length (milestones (contracts scenarioSecond 0)) - 1 \<and>
   reachable exampleHash scenarioThird \<and> 0 < nextContractId scenarioThird \<and>
   list_all wellFormed
     [AcceptContract 2 0, VerifyMilestone 4 0 0 (encodePacked 0 ''A'' 4) True] \<and>
   status (contracts scenarioThird 0) = COMPLETED \<and>
   status (contracts (run exampleHash scenarioThird
     [AcceptContract 2 0, VerifyMilestone 4 0 0 (encodePacked 0 ''A'' 4) True]) 0) = COMPLETED"
proof -
  have r2: "reachable exampleHash scenarioSecond" and r3: "reachable exampleHash scenarioThird"
    by (rule reachable_scenario)+
  have a2: "0 < nextContractId scenarioSecond" and a3: "0 < nextContractId scenarioThird"
    by (simp_all add: scenarioSecond_eq scenarioThird_eq)
  have st2: "status (contracts scenarioSecond 0) = ACTIVE"
    and st3: "status (contracts scenarioThird 0) = COMPLETED"
    by (simp_all add: scenarioSecond_eq scenarioThird_eq)
  have t: "transact exampleHash scenarioSecond
             (VerifyMilestone 4 0 2 (encodePacked 0 ''C'' 4) True) = scenarioThird"
    by (simp add: scenarioThird_def)
  have wf: "list_all wellFormed
     [AcceptContract 2 0, VerifyMilestone 4 0 0 (encodePacked 0 ''A'' 4) True]"
    by simp
  have last: "unat (completedMilestones (contracts scenarioSecond 0)) =
     length (milestones (contracts scenarioSecond 0)) - 1"
    using status_moves_forward [OF r2 a2,
        of "VerifyMilestone 4 0 2 (encodePacked 0 ''C'' 4) True" "[]", THEN conjunct1]
      st2 st3
    unfolding t by auto
  have stays: "status (contracts (run exampleHash scenarioThird
     [AcceptContract 2 0, VerifyMilestone 4 0 0 (encodePacked 0 ''A'' 4) True]) 0) = COMPLETED"
    using status_moves_forward [OF r3 a3, THEN conjunct2, rule_format, OF wf,
        THEN conjunct2, rule_format, OF st3] .
  show ?thesis
    unfolding t using r2 r3 a2 a3 st2 st3 wf last stays by blast
qed

subsection \<open>C7: acceptContract\<close>

text \<open>
  Claim C7. \<open>acceptContract\<close> succeeds exactly when the status of the record is CREATED and
  the caller is its carrier; it then sets the status to ACTIVE, emits \<open>ContractAccepted\<close>
  and changes nothing else. Any other caller is rejected with "Not the carrier" (the
  authorization error), the carrier in any other status with "Invalid status" (the state
  error), and a rejected call leaves the state as it was.
\<close>

theorem acceptContract_carrier_created:
  "((\<exists>s'. acceptContract s sender cid = Inr s') \<longleftrightarrow>
      status (contracts s cid) = CREATED \<and> sender = carrier (contracts s cid)) \<and>
   (acceptContract s sender cid = Inr s' \<longrightarrow>
      contracts s' = (contracts s)(cid := (contracts s cid)\<lparr>status := ACTIVE\<rparr>) \<and>
      nextContractId s' = nextContractId s \<and>
      transfers s' = transfers s \<and>
      events s' = events s @ [ContractAccepted cid sender]) \<and>
   (sender \<noteq> carrier (contracts s cid) \<longrightarrow>
      acceptContract s sender cid = Inl NotTheCarrier \<and>
      transact H s (AcceptContract sender cid) = s) \<and>
   (sender = carrier (contracts s cid) \<and> status (contracts s cid) \<noteq> CREATED \<longrightarrow>
      acceptContract s sender cid = Inl InvalidStatus \<and>
      transact H s (AcceptContract sender cid) = s)"
  by (auto simp: acceptContract_cases)

theorem acceptContract_carrier_created_witness:
  "acceptContract scenarioCreated 2 0 = Inr scenarioAccepted \<and>
   status (contracts scenarioAccepted 0) = ACTIVE \<and>
   contracts scenarioAccepted 1 = contracts scenarioCreated 1 \<and>
   (9 \<noteq> carrier (contracts scenarioCreated 0) \<and>
    acceptContract scenarioCreated 9 0 = Inl NotTheCarrier \<and>
    transact exampleHash scenarioCreated (AcceptContract 9 0) = scenarioCreated) \<and>
   (2 = carrier (contracts scenarioAccepted 0) \<and>
    status (contracts scenarioAccepted 0) \<noteq> CREATED \<and>
    acceptContract scenarioAccepted 2 0 = Inl InvalidStatus \<and>
    transact exampleHash scenarioAccepted (AcceptContract 2 0) = scenarioAccepted)"
proof -
  have ok: "acceptContract scenarioCreated 2 0 = Inr scenarioAccepted"
    by (simp add: scenarioAccepted_eq scenarioCreated_eq acceptContract_cases)
  have other: "9 \<noteq> carrier (contracts scenarioCreated 0)"
    by (simp add: scenarioCreated_eq)
  have late: "2 = carrier (contracts scenarioAccepted 0) \<and>
              status (contracts scenarioAccepted 0) \<noteq> CREATED"
    by (simp add: scenarioAccepted_eq)
  show ?thesis
    using ok other late
      acceptContract_carrier_created [of scenarioCreated 2 0 scenarioAccepted exampleHash]
      acceptContract_carrier_created [of scenarioCreated 9 0 scenarioAccepted exampleHash]
      acceptContract_carrier_created [of scenarioAccepted 2 0 scenarioAccepted exampleHash]
    by simp
qed

subsection \<open>C8: createContract\<close>

text \<open>
  Claim C8. \<open>createContract\<close> is rejected, with the message of the first requirement that
  fails (the five validation errors), whenever the value sent is 0, the carrier or the
  recipient is the zero address, there is no location, or the two arrays differ in
  length; the state is then as before. When it succeeds, in a reachable state, the
  identifier is \<open>nextContractId\<close>, which grows by one, and the record stored under it has
  the status CREATED, \<open>releasedAmount\<close> 0, one milestone per location and no milestone
  completed; no other record changes. It does succeed when the requirements hold and
  the counter can still grow.
\<close>

theorem createContract_validates_and_allocates:
  assumes "reachable H s"
  shows "(val = 0 \<or> carrier' = 0 \<or> recipient' = 0 \<or> locations = [] \<or>
          length locations \<noteq> length verifiers \<longrightarrow>
            createContract H s sender val carrier' recipient' locations verifiers =
              Inl (if val = 0 then PaymentRequired
                   else if carrier' = 0 then InvalidCarrier
                   else if recipient' = 0 then InvalidRecipient
                   else if locations = [] then NoMilestones
                   else MismatchedArrays) \<and>
            transact H s (CreateContract sender val carrier' recipient' locations verifiers) = s) \<and>
         (createContract H s sender val carrier' recipient' locations verifiers = Inr (cid, s') \<longrightarrow>
            cid = nextContractId s \<and>
            unat (nextContractId s') = unat (nextContractId s) + 1 \<and>
            shipper (contracts s' cid) = sender \<and>
            carrier (contracts s' cid) = carrier' \<and>
            recipient (contracts s' cid) = recipient' \<and>
            payment (contracts s' cid) = val \<and>
            status (contracts s' cid) = CREATED \<and>
            releasedAmount (contracts s' cid) = 0 \<and>
            completedMilestones (contracts s' cid) = 0 \<and>
            length (milestones (contracts s' cid)) = length locations \<and>
            (\<forall>m \<in> set (milestones (contracts s' cid)). \<not> completed m) \<and>
            (\<forall>k. k \<noteq> cid \<longrightarrow> contracts s' k = contracts s k)) \<and>
         (val \<noteq> 0 \<and> carrier' \<noteq> 0 \<and> recipient' \<noteq> 0 \<and> locations \<noteq> [] \<and>
          length locations = length verifiers \<and> unat (nextContractId s) + 1 < 2 ^ 256 \<longrightarrow>
            (\<exists>s'. createContract H s sender val carrier' recipient' locations verifiers =
                     Inr (nextContractId s, s')))"
proof -
  have slot: "unusedSlot (contracts s (nextContractId s))"
    using assms by (rule reachable_unused) simp
  have fail: "val = 0 \<or> carrier' = 0 \<or> recipient' = 0 \<or> locations = [] \<or>
          length locations \<noteq> length verifiers \<longrightarrow>
            createContract H s sender val carrier' recipient' locations verifiers =
              Inl (if val = 0 then PaymentRequired
                   else if carrier' = 0 then InvalidCarrier
                   else if recipient' = 0 then InvalidRecipient
                   else if locations = [] then NoMilestones
                   else MismatchedArrays) \<and>
            transact H s (CreateContract sender val carrier' recipient' locations verifiers) = s"
    by (simp add: createContract_cases)
  have ok: "cid = nextContractId s \<and>
            unat (nextContractId s') = unat (nextContractId s) + 1 \<and>
            shipper (contracts s' cid) = sender \<and>
            carrier (contracts s' cid) = carrier' \<and>
            recipient (contracts s' cid) = recipient' \<and>
            payment (contracts s' cid) = val \<and>
            status (contracts s' cid) = CREATED \<and>
            releasedAmount (contracts s' cid) = 0 \<and>
            completedMilestones (contracts s' cid) = 0 \<and>
            length (milestones (contracts s' cid)) = length locations \<and>
            (\<forall>m \<in> set (milestones (contracts s' cid)). \<not> completed m) \<and>
            (\<forall>k. k \<noteq> cid \<longrightarrow> contracts s' k = contracts s k)"
    if c: "createContract H s sender val carrier' recipient' locations verifiers = Inr (cid, s')"
  proof -
    have room: "unat (nextContractId s) + 1 < 2 ^ 256" and cid: "cid = nextContractId s"
      using c by (simp_all add: createContract_cases split: if_splits)
    have s': "s' = s\<lparr>nextContractId := nextContractId s + 1,
               contracts := (contracts s)(nextContractId s :=
                 (contracts s (nextContractId s))
                   \<lparr>shipper := sender, carrier := carrier', recipient := recipient',
                    payment := val, releasedAmount := 0, status := CREATED,
                    milestones := milestones (contracts s (nextContractId s)) @
                      map (\<lambda>j. \<lparr>qrHash = H (encodePacked (nextContractId s)
                                              (locations ! j) (verifiers ! j)),
                                  location = locations ! j, verifier = verifiers ! j,
                                  completed = False\<rparr>) [0..<length locations]\<rparr>),
               events := events s @
                 [ContractCreated (nextContractId s) sender carrier' recipient' val]\<rparr>"
      using c by (auto simp: createContract_cases split: if_splits)
    have inc: "unat (nextContractId s + 1) = unat (nextContractId s) + 1"
      using room unat_add_lem [of "nextContractId s" 1] by simp
    show ?thesis
      using slot inc by (simp add: s' cid unusedSlot_def)
  qed
  have succeeds: "val \<noteq> 0 \<and> carrier' \<noteq> 0 \<and> recipient' \<noteq> 0 \<and> locations \<noteq> [] \<and>
          length locations = length verifiers \<and> unat (nextContractId s) + 1 < 2 ^ 256 \<longrightarrow>
            (\<exists>s'. createContract H s sender val carrier' recipient' locations verifiers =
                     Inr (nextContractId s, s'))"
    by (simp add: createContract_cases)
  show ?thesis
    using fail ok succeeds by blast
qed

theorem createContract_validates_and_allocates_witness:
  "reachable exampleHash deployed \<and>
   createContract exampleHash deployed 1 0 2 3 [''A''] [4] = Inl PaymentRequired \<and>
   createContract exampleHash deployed 1 100 2 3 [''A'', ''B'', ''C''] [4, 5, 4] =
     Inr (0, scenarioCreated) \<and>
   nextContractId deployed = 0 \<and>
   unat (nextContractId scenarioCreated) = 1 \<and>
   status (contracts scenarioCreated 0) = CREATED \<and>
   releasedAmount (contracts scenarioCreated 0) = 0 \<and>
   length (milestones (contracts scenarioCreated 0)) = 3 \<and>
   unat (nextContractId deployed) + 1 < 2 ^ 256"
proof -
  have r: "reachable exampleHash deployed"
    by (rule reachable_deployed)
  have room: "unat (nextContractId deployed) + 1 < 2 ^ 256"
    by (simp add: deployed_def)
  have c: "createContract exampleHash deployed 1 100 2 3 [''A'', ''B'', ''C''] [4, 5, 4] =
             Inr (0, scenarioCreated)"
    by (simp add: scenarioCreated_eq createContract_cases deployed_def zeroContract_def
          upt_conv_Cons)
  have n: "nextContractId deployed = 0"
    by (simp add: deployed_def)
  have bad: "createContract exampleHash deployed 1 0 2 3 [''A''] [4] = Inl PaymentRequired"
    using createContract_validates_and_allocates [OF r, of 0 2 3 "[''A'']" "[4]" 1,
        THEN conjunct1]
    by simp
  have good: "unat (nextContractId scenarioCreated) = 1 \<and>
     status (contracts scenarioCreated 0) = CREATED \<and>
     releasedAmount (contracts scenarioCreated 0) = 0 \<and>
     length (milestones (contracts scenarioCreated 0)) = 3"
    using createContract_validates_and_allocates [OF r,
        of 100 2 3 "[''A'', ''B'', ''C'']" "[4, 5, 4]" 1 0 scenarioCreated,
        THEN conjunct2, THEN conjunct1, rule_format, OF c] n
    by simp
  show ?thesis
    using r c n bad good room by blast
qed

subsection \<open>C9: the views\<close>

text \<open>
  Claim C9, in the form that holds of the code. \<open>getContract\<close> and \<open>getMilestone\<close> are views: they return a value
  and no state. \<open>getMilestone\<close> is rejected with "Invalid milestone" exactly when the
  index is not below the number of milestones of the record, which is every index when
  the identifier was never allocated. \<open>getContract\<close> is never rejected: for an
  identifier that was never allocated it returns the zero addresses, payment 0,
  0 milestones and 0 completed milestones.
\<close>

theorem views_of_registry:
  assumes "reachable H s"
  shows "getContract s cid =
           Inr (shipper (contracts s cid), carrier (contracts s cid),
                recipient (contracts s cid), payment (contracts s cid),
                status (contracts s cid), of_nat (length (milestones (contracts s cid))),
                completedMilestones (contracts s cid)) \<and>
         getMilestone s cid i =
           (if unat i < length (milestones (contracts s cid))
            then Inr (location (milestones (contracts s cid) ! unat i),
                      verifier (milestones (contracts s cid) ! unat i),
                      completed (milestones (contracts s cid) ! unat i))
            else Inl InvalidMilestone) \<and>
         (\<not> cid < nextContractId s \<longrightarrow>
            getContract s cid = Inr (0, 0, 0, 0, status (contracts s cid), 0, 0) \<and>
            status (contracts s cid) \<noteq> COMPLETED \<and>
            getMilestone s cid i = Inl InvalidMilestone)"
  using reachable_unused [OF assms, of cid]
  by (simp add: getContract_def getMilestone_def Let_def unusedSlot_def)

theorem getContract_unknown_counterexample:
  "reachable exampleHash scenarioCreated \<and>
   \<not> 1 < nextContractId scenarioCreated \<and>
   getContract scenarioCreated 1 = Inr (0, 0, 0, 0, CREATED, 0, 0)"
  using reachable_scenario(1)
  by (simp add: scenarioCreated_eq getContract_def zeroContract_def)

theorem views_of_registry_witness:
  "reachable exampleHash scenarioCreated \<and>
   \<not> 1 < nextContractId scenarioCreated \<and>
   getContract scenarioCreated 1 = Inr (0, 0, 0, 0, CREATED, 0, 0) \<and>
   getMilestone scenarioCreated 1 0 = Inl InvalidMilestone \<and>
   getMilestone scenarioCreated 0 3 = Inl InvalidMilestone \<and>
   getMilestone scenarioCreated 0 1 = Inr (''B'', 5, False)"
proof -
  have r: "reachable exampleHash scenarioCreated"
    by (rule reachable_scenario)
  have n: "\<not> 1 < nextContractId scenarioCreated"
    and st: "status (contracts scenarioCreated 1) = CREATED"
    by (simp_all add: scenarioCreated_eq zeroContract_def)
  have ms: "milestones (contracts scenarioCreated 0) =
           [\<lparr>qrHash = exampleHash (encodePacked 0 ''A'' 4), location = ''A'', verifier = 4,
              completed = False\<rparr>,
            \<lparr>qrHash = exampleHash (encodePacked 0 ''B'' 5), location = ''B'', verifier = 5,
              completed = False\<rparr>,
            \<lparr>qrHash = exampleHash (encodePacked 0 ''C'' 4), location = ''C'', verifier = 4,
              completed = False\<rparr>]"
    by (simp add: scenarioCreated_eq)
  have g1: "getContract scenarioCreated 1 = Inr (0, 0, 0, 0, CREATED, 0, 0)"
    and g2: "getMilestone scenarioCreated 1 0 = Inl InvalidMilestone"
    using views_of_registry [OF r, of 1 0, THEN conjunct2, THEN conjunct2, rule_format, OF n] st
    by simp_all
  have g3: "getMilestone scenarioCreated 0 3 = Inl InvalidMilestone"
    using views_of_registry [OF r, of 0 3, THEN conjunct2, THEN conjunct1] by (simp add: ms)
  have g4: "getMilestone scenarioCreated 0 1 = Inr (''B'', 5, False)"
    using views_of_registry [OF r, of 0 1, THEN conjunct2, THEN conjunct1] by (simp add: ms)
  show ?thesis
    using r n g1 g2 g3 g4 by blast
qed

subsection \<open>C10: milestones that are alike\<close>

text \<open>
  Claim C10. In a reachable state, two milestones of one contract that have the same
  location and the same verifier have the same stored commitment, since the preimage
  holds the identifier of the contract, the location and the verifier and not the index.
  So the comparison \<^verbatim>\<open>keccak256(qrData) == milestone.qrHash\<close> gives the same answer for
  both.
\<close>

theorem twin_milestones_share_commitment:
  assumes "reachable H s"
    and "i < length (milestones (contracts s cid))"
    and "j < length (milestones (contracts s cid))"
    and "location (milestones (contracts s cid) ! i) =
         location (milestones (contracts s cid) ! j)"
    and "verifier (milestones (contracts s cid) ! i) =
         verifier (milestones (contracts s cid) ! j)"
  shows "qrHash (milestones (contracts s cid) ! i) =
         qrHash (milestones (contracts s cid) ! j) \<and>
         (H qrData = qrHash (milestones (contracts s cid) ! i) \<longleftrightarrow>
          H qrData = qrHash (milestones (contracts s cid) ! j))"
  using assms reachable_hash [of H s i cid] reachable_hash [of H s j cid] by simp

theorem twin_milestones_share_commitment_witness:
  "reachable exampleHash twinCreated \<and>
   (0::nat) < length (milestones (contracts twinCreated 0)) \<and>
   (1::nat) < length (milestones (contracts twinCreated 0)) \<and>
   location (milestones (contracts twinCreated 0) ! 0) =
     location (milestones (contracts twinCreated 0) ! 1) \<and>
   verifier (milestones (contracts twinCreated 0) ! 0) =
     verifier (milestones (contracts twinCreated 0) ! 1) \<and>
   qrHash (milestones (contracts twinCreated 0) ! 0) =
     qrHash (milestones (contracts twinCreated 0) ! 1)"
proof -
  have r: "reachable exampleHash twinCreated"
    by (rule reachable_twinCreated)
  have a: "(0::nat) < length (milestones (contracts twinCreated 0))"
    and b: "(1::nat) < length (milestones (contracts twinCreated 0))"
    and c: "location (milestones (contracts twinCreated 0) ! 0) =
            location (milestones (contracts twinCreated 0) ! 1)"
    and d: "verifier (milestones (contracts twinCreated 0) ! 0) =
            verifier (milestones (contracts twinCreated 0) ! 1)"
    by (simp_all add: twinCreated_eq)
  show ?thesis
    using r a b c d twin_milestones_share_commitment [OF r a b c d] by blast
qed

end
